theory Spec2Isabelle
  imports
    Main
    "HOL-Library.Char_ord"
    "HOL-Library.List_Lexorder"
    "HOL-Library.Sublist"
    "HOL-Library.Multiset"
    "HOL-Library.AList"
begin

section \<open>Strings\<close>

text \<open>
  A Go string is a sequence of bytes; it is modelled as a \<^typ>\<open>string\<close>, one
  \<^typ>\<open>char\<close> per byte. Go compares strings bytewise, which is the lexicographic
  order on \<^typ>\<open>char list\<close> over the order of the byte values.
\<close>

subsection \<open>The naming normalizer (\<open>toSnakeCase\<close>)\<close>

text \<open>
  The source converts the string to \<open>[]rune\<close> and tests every rune against the ASCII
  ranges \<open>'A'..'Z'\<close> and \<open>'a'..'z'\<close>. In valid UTF-8 every byte of a multi-byte rune is
  at least \<open>0x80\<close>, so neither the rune nor any of its bytes lies in one of the two
  ranges, and the rune is written back unchanged: on valid UTF-8 (every Go identifier is)
  the loop over runes and the loop over bytes below produce the same bytes.
\<close>

definition isUpper :: "char \<Rightarrow> bool" where
  "isUpper r = (CHR ''A'' \<le> r \<and> r \<le> CHR ''Z'')"

definition isLower :: "char \<Rightarrow> bool" where
  "isLower r = (CHR ''a'' \<le> r \<and> r \<le> CHR ''z'')"

text \<open>\<open>r + 32\<close>, only ever computed for \<open>r\<close> in \<open>'A'..'Z'\<close>.\<close>

definition plus32 :: "char \<Rightarrow> char" where
  "plus32 r = char_of (of_char r + (32::nat))"

text \<open>
  The body of the \<open>for i, r := range runes\<close> loop: \<open>result\<close> is the builder's
  contents so far.
\<close>

definition snake_step :: "string \<Rightarrow> nat \<Rightarrow> string \<Rightarrow> string" where
  "snake_step runes i result =
     (let r = runes ! i in
      if isUpper r then
        (if i > 0 then
           (let prevLower = isLower (runes ! (i - 1));
                nextLower = (i + 1 < length runes \<and> isLower (runes ! (i + 1)))
            in if prevLower \<or> nextLower then result @ ''_'' else result)
         else result) @ [plus32 r]
      else result @ [r])"

function snake_loop :: "string \<Rightarrow> nat \<Rightarrow> string \<Rightarrow> string" where
  "snake_loop runes i result =
     (if i < length runes then snake_loop runes (i + 1) (snake_step runes i result)
      else result)"
  by pat_completeness auto
termination
  by (relation "measure (\<lambda>(runes, i, result). length runes - i)") auto

definition toSnakeCase :: "string \<Rightarrow> string" where
  "toSnakeCase s = (if s = [] then s else snake_loop s 0 [])"

text \<open>
  The rule in the words of the specification: a boundary underscore goes before the
  character at position \<open>i\<close> exactly when that character is upper-case, is not the first
  one, and the previous or the following character is lower-case; every upper-case
  letter is then written in lower case.
\<close>

definition boundary :: "string \<Rightarrow> nat \<Rightarrow> bool" where
  "boundary s i =
     (isUpper (s ! i) \<and> i \<noteq> 0 \<and>
      (isLower (s ! (i - 1)) \<or> (i + 1 < length s \<and> isLower (s ! (i + 1)))))"

definition lowercase :: "char \<Rightarrow> char" where
  "lowercase c = (if isUpper c then plus32 c else c)"

definition snake_spec :: "string \<Rightarrow> string" where
  "snake_spec s =
     concat (map (\<lambda>i. (if boundary s i then ''_'' else []) @ [lowercase (s ! i)])
                 [0..<length s])"

subsection \<open>Library functions on strings\<close>

text \<open>\<open>strings.HasPrefix\<close>, \<open>strings.Join\<close>, and \<open>strings.Split\<close> at a one-byte separator.\<close>

definition HasPrefix :: "string \<Rightarrow> string \<Rightarrow> bool" where
  "HasPrefix s p = prefix p s"

fun Join :: "string list \<Rightarrow> string \<Rightarrow> string" where
  "Join [] sep = []"
| "Join [x] sep = x"
| "Join (x # y # ys) sep = x @ sep @ Join (y # ys) sep"

function Split :: "string \<Rightarrow> char \<Rightarrow> string list" where
  "Split s c =
     (case dropWhile (\<lambda>x. x \<noteq> c) s of
        [] \<Rightarrow> [s]
      | _ # rest \<Rightarrow> takeWhile (\<lambda>x. x \<noteq> c) s # Split rest c)"
  by pat_completeness auto
termination
proof (relation "measure (\<lambda>(s, c). length s)")
  show "wf (measure (\<lambda>(s, c). length s))" by simp
next
  fix s :: string and c x rest
  assume "dropWhile (\<lambda>x. x \<noteq> c) s = x # rest"
  then have "length rest < length (dropWhile (\<lambda>x. x \<noteq> c) s)" by simp
  also have "\<dots> \<le> length s" by (rule length_dropWhile_le)
  finally show "((rest, c), (s, c)) \<in> measure (\<lambda>(s, c). length s)" by simp
qed

text \<open>
  \<open>strings.TrimSpace\<close> removes leading and trailing white space as Unicode defines it
  (\<open>unicode.IsSpace\<close>): the six ASCII characters tab, line feed, vertical tab, form
  feed, carriage return and space, and U+0085, U+00A0, U+1680, U+2000 to U+200A,
  U+2028, U+2029, U+202F, U+205F and U+3000, here in their UTF-8 encodings. A byte
  that starts no valid encoding decodes to U+FFFD, which is not white space.
\<close>

definition space_encodings :: "string list" where
  "space_encodings =
     [[CHR 0x09], [CHR 0x0A], [CHR 0x0B], [CHR 0x0C], [CHR 0x0D], [CHR 0x20],
      [CHR 0xC2, CHR 0x85], [CHR 0xC2, CHR 0xA0],
      [CHR 0xE1, CHR 0x9A, CHR 0x80],
      [CHR 0xE2, CHR 0x80, CHR 0x80], [CHR 0xE2, CHR 0x80, CHR 0x81],
      [CHR 0xE2, CHR 0x80, CHR 0x82], [CHR 0xE2, CHR 0x80, CHR 0x83],
      [CHR 0xE2, CHR 0x80, CHR 0x84], [CHR 0xE2, CHR 0x80, CHR 0x85],
      [CHR 0xE2, CHR 0x80, CHR 0x86], [CHR 0xE2, CHR 0x80, CHR 0x87],
      [CHR 0xE2, CHR 0x80, CHR 0x88], [CHR 0xE2, CHR 0x80, CHR 0x89],
      [CHR 0xE2, CHR 0x80, CHR 0x8A],
      [CHR 0xE2, CHR 0x80, CHR 0xA8], [CHR 0xE2, CHR 0x80, CHR 0xA9],
      [CHR 0xE2, CHR 0x80, CHR 0xAF], [CHR 0xE2, CHR 0x81, CHR 0x9F],
      [CHR 0xE3, CHR 0x80, CHR 0x80]]"

text \<open>Removing, from the front, every leading occurrence of one of the given byte sequences.\<close>

function trimPrefixes :: "string list \<Rightarrow> string \<Rightarrow> string" where
  "trimPrefixes encs s =
     (case find (\<lambda>e. e \<noteq> [] \<and> prefix e s) encs of
        None \<Rightarrow> s
      | Some e \<Rightarrow> trimPrefixes encs (drop (length e) s))"
  by pat_completeness auto
termination
proof (relation "measure (\<lambda>(encs, s). length s)")
  show "wf (measure (\<lambda>(encs, s). length s))" by simp
next
  fix encs :: "string list" and s e :: string
  assume "find (\<lambda>e. e \<noteq> [] \<and> prefix e s) encs = Some e"
  then have "e \<noteq> []" and "prefix e s"
    by (auto simp: find_Some_iff)
  then have "s \<noteq> []" by auto
  with \<open>e \<noteq> []\<close>
  show "((encs, drop (length e) s), (encs, s)) \<in> measure (\<lambda>(encs, s). length s)"
    by simp
qed

definition TrimSpace :: "string \<Rightarrow> string" where
  "TrimSpace s =
     rev (trimPrefixes (map rev space_encodings) (rev (trimPrefixes space_encodings s)))"

text \<open>\<open>fmt.Sprintf("%d", n)\<close> for a natural number.\<close>

definition digit :: "nat \<Rightarrow> char" where
  "digit d = char_of (48 + d)"

function itoa :: "nat \<Rightarrow> string" where
  "itoa n = (if n < 10 then [digit n] else itoa (n div 10) @ [digit (n mod 10)])"
  by pat_completeness auto
termination
  by (relation "measure id") auto

section \<open>Reflection\<close>

text \<open>
  The code inspects its inputs through Go's \<open>reflect\<close> package. The model keeps of a
  type and of a value what the code reads: kinds, struct fields, pointer addresses,
  the elements of slices, and what \<open>String()\<close> returns.
\<close>

type_synonym addr = nat

datatype kind =
  Invalid | Bool | IntKind | Uint | Float | String | Pointer | Slice | Array | Map | Chan
  | Struct | Func | Interface

text \<open>
  A type is a pointer type, a struct type with its name and fields, or a type of another
  kind with its name (\<open>Basic k n\<close>, where \<open>k\<close> is neither \<open>Pointer\<close> nor
  \<open>Struct\<close>). A field is a \<open>reflect.StructField\<close>; \<open>sfPkgPath\<close> is empty exactly for
  an exported field, \<open>sfOffset\<close> is the field's offset within the struct in bytes.
\<close>

datatype gotype =
    Basic kind string
  | PtrTo gotype
  | StructType string "StructField list"
and StructField =
    StructField (sfName: string) (sfPkgPath: string) (sfType: gotype) (sfTag: string)
      (sfOffset: nat) (sfAnonymous: bool)

fun Kind :: "gotype \<Rightarrow> kind" where
  "Kind (Basic k n) = k"
| "Kind (PtrTo t) = Pointer"
| "Kind (StructType n fs) = Struct"

text \<open>\<open>t.Elem()\<close> of a pointer type, \<open>t.Name()\<close>, and the fields \<open>t.Field(i)\<close>.\<close>

fun ElemType :: "gotype \<Rightarrow> gotype" where
  "ElemType (PtrTo t) = t"
| "ElemType t = Basic Invalid []"

fun TypeName :: "gotype \<Rightarrow> string" where
  "TypeName (Basic k n) = n"
| "TypeName (PtrTo t) = []"
| "TypeName (StructType n fs) = n"

fun Fields :: "gotype \<Rightarrow> StructField list" where
  "Fields (StructType n fs) = fs"
| "Fields t = []"

fun indirectType :: "gotype \<Rightarrow> gotype" where
  "indirectType (PtrTo t) = indirectType t"
| "indirectType t = t"

text \<open>
  A \<open>reflect.Value\<close>. Every value but a string carries the name of its type, which is
  what \<open>String()\<close> prints for it. A pointer has its address (\<open>0\<close> for nil) and the value
  it points to. A struct has the fields \<open>FieldByName\<close> finds, by name. A function
  has its parameter types, the number of its results, and, unless it is nil, what
  calling it returns when its one argument is a pointer with the given address to a zero
  value. An interface value holds a value or is nil.
\<close>

datatype rvalue =
    VInvalid
  | VString string
  | VBool string bool
  | VPtr string addr rvalue
  | VSlice string "rvalue list"
  | VStruct string "(string \<times> rvalue) list"
  | VFunc string "gotype list" nat "(addr \<Rightarrow> rvalue list) option"
  | VIface string "rvalue option"
  | VOther kind string

fun RKind :: "rvalue \<Rightarrow> kind" where
  "RKind VInvalid = Invalid"
| "RKind (VString s) = String"
| "RKind (VBool t b) = Bool"
| "RKind (VPtr t a v) = Pointer"
| "RKind (VSlice t vs) = Slice"
| "RKind (VStruct t fs) = Struct"
| "RKind (VFunc t ins nout f) = Func"
| "RKind (VIface t v) = Interface"
| "RKind (VOther k t) = k"

fun IsValid :: "rvalue \<Rightarrow> bool" where
  "IsValid VInvalid = False"
| "IsValid v = True"

fun RTypeName :: "rvalue \<Rightarrow> string" where
  "RTypeName VInvalid = []"
| "RTypeName (VString s) = ''string''"
| "RTypeName (VBool t b) = t"
| "RTypeName (VPtr t a v) = t"
| "RTypeName (VSlice t vs) = t"
| "RTypeName (VStruct t fs) = t"
| "RTypeName (VFunc t ins nout f) = t"
| "RTypeName (VIface t v) = t"
| "RTypeName (VOther k t) = t"

text \<open>\<open>v.String()\<close>: the string itself for a string, a description for everything else.\<close>

fun String_of :: "rvalue \<Rightarrow> string" where
  "String_of (VString s) = s"
| "String_of VInvalid = ''<invalid Value>''"
| "String_of v = ''<'' @ RTypeName v @ '' Value>''"

text \<open>\<open>v.Elem()\<close> of a pointer or an interface: the zero Value when it is nil.\<close>

fun Elem :: "rvalue \<Rightarrow> rvalue" where
  "Elem (VPtr t a v) = (if a = 0 then VInvalid else v)"
| "Elem (VIface t (Some v)) = v"
| "Elem v = VInvalid"

text \<open>\<open>v.IsNil()\<close> and \<open>v.Pointer()\<close>; the code calls them on pointers and interfaces.\<close>

fun IsNil :: "rvalue \<Rightarrow> bool" where
  "IsNil (VPtr t a v) = (a = 0)"
| "IsNil (VIface t None) = True"
| "IsNil v = False"

fun Pointer_of :: "rvalue \<Rightarrow> addr" where
  "Pointer_of (VPtr t a v) = a"
| "Pointer_of v = 0"

text \<open>\<open>if v.Kind() == reflect.Pointer { v = v.Elem() }\<close>\<close>

definition deref :: "rvalue \<Rightarrow> rvalue" where
  "deref v = (if RKind v = Pointer then Elem v else v)"

text \<open>\<open>v.FieldByName(name)\<close>, called on structs only; the zero Value when there is no such field.\<close>

fun FieldByName :: "rvalue \<Rightarrow> string \<Rightarrow> rvalue" where
  "FieldByName (VStruct t fs) name = (case map_of fs name of None \<Rightarrow> VInvalid | Some v \<Rightarrow> v)"
| "FieldByName v name = VInvalid"

text \<open>The elements \<open>v.Index(0)\<close>, ..., \<open>v.Index(v.Len() - 1)\<close>; called on slices only.\<close>

fun Elems :: "rvalue \<Rightarrow> rvalue list" where
  "Elems (VSlice t vs) = vs"
| "Elems v = []"

section \<open>Errors\<close>

text \<open>
  The errors are the source's \<open>fmt.Errorf\<close> calls, one constructor for each, with the
  values its message is formatted from. A panic of the \<open>reflect\<close> package is not an
  error the code returns: it unwinds through every caller.
\<close>

datatype sel_error =
    SelNotFunc                \<comment> \<open>\<open>Sel is not a func\<close>\<close>
  | SelBadSignature           \<comment> \<open>\<open>Sel must be func(*T) any\<close>\<close>
  | SelUnexpectedValues       \<comment> \<open>\<open>Sel returned unexpected values\<close>\<close>
  | SelNilInterface           \<comment> \<open>\<open>Sel returned a nil interface\<close>\<close>
  | SelNotPointer             \<comment> \<open>\<open>Sel must return a *field (pointer)\<close>\<close>
  | SelNotTopLevel string     \<comment> \<open>\<open>Sel didn't point to a top-level exported field on %s\<close>\<close>

datatype panic =
    CallOfNilFunc             \<comment> \<open>\<open>sel.Call\<close> of a nil function\<close>
  | NumFieldOfNonStruct kind  \<comment> \<open>\<open>v.NumField()\<close> of a value that is no struct\<close>
  | BoolOfNonBool kind        \<comment> \<open>\<open>uniqueF.Bool()\<close> of a value that is no bool\<close>

datatype error =
    NilModel                        \<comment> \<open>\<open>nil model\<close>\<close>
  | NotAStruct kind                 \<comment> \<open>\<open>model must be a struct or *struct, got %v\<close>\<close>
  | DefNotStruct nat                \<comment> \<open>\<open>Indexes()[%d] is not a struct\<close>\<close>
  | NotIndexDefinition nat          \<comment> \<open>\<open>Indexes()[%d] doesn't look like IndexDefinition\<close>\<close>
  | ColumnsNotSlice string          \<comment> \<open>\<open>Index %q: Columns is not a slice\<close>\<close>
  | ColumnNotStruct string nat      \<comment> \<open>\<open>Index %q column %d: not a struct\<close>\<close>
  | MissingSel string nat           \<comment> \<open>\<open>Index %q column %d: missing Sel\<close>\<close>
  | SelectorError string nat sel_error  \<comment> \<open>\<open>index %q column %d: %w\<close>\<close>

datatype ('e, 'a) result = Ok 'a | Error 'e | Panic panic

section \<open>The selector resolver (\<open>fieldNameFromSelectorValue\<close>)\<close>

text \<open>
  The loop over the fields of the probe \<open>v\<close>, a zero value of type \<open>T\<close> allocated at
  address \<open>new\<close>: field \<open>i\<close> is at \<open>new + sfOffset\<close>, and every field of the probe
  is addressable (\<open>fv.CanAddr()\<close> holds), the probe being the target of a pointer.
\<close>

fun matchField :: "addr \<Rightarrow> addr \<Rightarrow> StructField list \<Rightarrow> string option" where
  "matchField new retPtr [] = None"
| "matchField new retPtr (sf # fs) =
     (if sfPkgPath sf \<noteq> [] then matchField new retPtr fs
      else if new + sfOffset sf = retPtr then Some (sfName sf)
      else matchField new retPtr fs)"

text \<open>
  \<open>new\<close> is the address \<open>reflect.New\<close> returns for the probe. The first component of the
  result counts the invocations of the selector.
\<close>

definition fieldNameFromSelectorValue ::
  "addr \<Rightarrow> rvalue \<Rightarrow> nat \<times> (sel_error, string) result" where
  "fieldNameFromSelectorValue new sel =
     (case sel of
        VFunc tn ins nout impl \<Rightarrow>
          if length ins \<noteq> 1 \<or> Kind (ins ! 0) \<noteq> Pointer \<or> nout \<noteq> 1
          then (0, Error SelBadSignature)
          else
            (case impl of
               None \<Rightarrow> (0, Panic CallOfNilFunc)
             | Some f \<Rightarrow>
                 (let out = f new in
                  (1,
                   if length out \<noteq> 1 then Error SelUnexpectedValues
                   else
                     (let res = out ! 0 in
                      if RKind res = Interface \<and> IsNil res then Error SelNilInterface
                      else
                        (let res = (if RKind res = Interface then Elem res else res) in
                         if RKind res \<noteq> Pointer \<or> IsNil res then Error SelNotPointer
                         else
                           (let retPtr = Pointer_of res;
                                t = ElemType (ins ! 0)
                            in if Kind t \<noteq> Struct then Panic (NumFieldOfNonStruct (Kind t))
                               else
                                 (case matchField new retPtr (Fields t) of
                                    Some name \<Rightarrow> Ok name
                                  | None \<Rightarrow> Error (SelNotTopLevel (TypeName t)))))))))
      | _ \<Rightarrow> (0, Error SelNotFunc))"

section \<open>The fragment assembler (\<open>collectIndexTagsFromIndexesValue\<close>)\<close>

text \<open>
  The markers of one column, in the order the source appends them to \<open>parts\<close>:
  \<open>name\<close>, \<open>unique\<close>, \<open>where\<close> and \<open>indexType\<close> are the values read from
  the declaration, \<open>j\<close> is the position of the column, \<open>sortF\<close>, \<open>nullF\<close> and
  \<open>opClassF\<close> are the column's fields, \<open>fname\<close> is the resolved field name.
\<close>

definition index_parts ::
  "string \<Rightarrow> bool \<Rightarrow> string \<Rightarrow> string \<Rightarrow> nat \<Rightarrow> rvalue \<Rightarrow> rvalue \<Rightarrow> rvalue \<Rightarrow> string
     \<Rightarrow> string list" where
  "index_parts name unique wher indexType j sortF nullF opClassF fname =
     (let parts = [''index:'' @ name, ''priority:'' @ itoa (j + 1)];
          parts =
            (let s = TrimSpace (String_of sortF) in
             if s \<noteq> [] then
               (let n = TrimSpace (String_of nullF);
                    val = (if n \<noteq> [] then s @ '' nulls '' @ n else s)
                in parts @ [''sort:'' @ val])
             else parts);
          parts = (if j = 0 \<and> unique then parts @ [''unique''] else parts);
          parts = (if j = 0 \<and> wher \<noteq> [] then parts @ [''where:'' @ wher] else parts);
          parts = (if j = 0 \<and> indexType \<noteq> [] then parts @ [''type:'' @ indexType] else parts);
          parts =
            (if IsValid opClassF then
               (let cls = TrimSpace (String_of opClassF) in
                if cls \<noteq> [] then parts @ [''expression:'' @ toSnakeCase fname @ '' '' @ cls]
                else parts)
             else parts)
      in parts)"

text \<open>
  The state of the two loops: the number of probes allocated so far, and
  \<open>fieldToIndexTags\<close>. A Go map from strings to slices gives nil for a missing key
  and the code only ever stores non-empty slices, so the map is a function that is
  \<open>[]\<close> where the map has no entry. \<open>new n\<close> is the address of the \<open>n\<close>-th probe.
\<close>

type_synonym tags = "string \<Rightarrow> string list"

fun collect_columns ::
  "(nat \<Rightarrow> addr) \<Rightarrow> string \<Rightarrow> bool \<Rightarrow> string \<Rightarrow> string \<Rightarrow> nat \<Rightarrow> rvalue list \<Rightarrow> nat \<times> tags
     \<Rightarrow> (error, nat \<times> tags) result" where
  "collect_columns new name unique wher indexType j [] st = Ok st"
| "collect_columns new name unique wher indexType j (c # cs) st =
     (let col = deref c in
      if RKind col \<noteq> Struct then Error (ColumnNotStruct name (j + 1))
      else
        (let selF = FieldByName col ''Sel'';
             sortF = FieldByName col ''Sort'';
             nullF = FieldByName col ''Nulls'';
             opClassF = FieldByName col ''OpClass''
         in if \<not> IsValid selF then Error (MissingSel name (j + 1))
            else
              (case snd (fieldNameFromSelectorValue (new (fst st)) selF) of
                 Error err \<Rightarrow> Error (SelectorError name (j + 1) err)
               | Panic p \<Rightarrow> Panic p
               | Ok fname \<Rightarrow>
                   (let parts = index_parts name unique wher indexType j sortF nullF opClassF fname;
                        fieldToIndexTags = snd st
                    in collect_columns new name unique wher indexType (j + 1) cs
                         (fst st + 1,
                          fieldToIndexTags(fname := fieldToIndexTags fname @ [Join parts '','']))))))"

fun collect_defs ::
  "(nat \<Rightarrow> addr) \<Rightarrow> nat \<Rightarrow> rvalue list \<Rightarrow> nat \<times> tags \<Rightarrow> (error, nat \<times> tags) result" where
  "collect_defs new i [] st = Ok st"
| "collect_defs new i (d # ds) st =
     (let def = deref d in
      if RKind def \<noteq> Struct then Error (DefNotStruct i)
      else
        (let nameF = FieldByName def ''Name'';
             colsF = FieldByName def ''Columns'';
             uniqueF = FieldByName def ''Unique'';
             whereF = FieldByName def ''Where'';
             typeF = FieldByName def ''Type''
         in if \<not> IsValid nameF \<or> \<not> IsValid colsF \<or> \<not> IsValid uniqueF \<or> \<not> IsValid whereF
            then Error (NotIndexDefinition i)
            else
              (let name = String_of nameF in
               case uniqueF of
                 VBool bt unique \<Rightarrow>
                   (let wher = TrimSpace (String_of whereF);
                        indexType = (if IsValid typeF then TrimSpace (String_of typeF) else [])
                    in if RKind colsF \<noteq> Slice then Error (ColumnsNotSlice name)
                       else
                         (case collect_columns new name unique wher indexType 0 (Elems colsF) st of
                            Ok st' \<Rightarrow> collect_defs new (i + 1) ds st'
                          | Error err \<Rightarrow> Error err
                          | Panic p \<Rightarrow> Panic p))
               | _ \<Rightarrow> Panic (BoolOfNonBool (RKind uniqueF)))))"

text \<open>
  The parameter \<open>baseStruct\<close> of the source is never read, so the model leaves it out.
  The function is called with a slice.
\<close>

definition collectIndexTagsFromIndexesValue ::
  "(nat \<Rightarrow> addr) \<Rightarrow> rvalue \<Rightarrow> (error, tags) result" where
  "collectIndexTagsFromIndexesValue new defsSlice =
     (case collect_defs new 0 (Elems defsSlice) (0, \<lambda>name. []) of
        Ok st \<Rightarrow> Ok (snd st)
      | Error err \<Rightarrow> Error err
      | Panic p \<Rightarrow> Panic p)"

section \<open>Merging fragments into a field's tag\<close>

abbreviation (input) DQ :: char where
  "DQ \<equiv> CHR 0x22"

text \<open>
  \<open>tagKV\<close> is the regular expression \<^verbatim>\<open>(\w+):"([^"]*)"\<close>, where \<^verbatim>\<open>\w\<close> is an ASCII
  letter, digit or underscore. A match that starts at the beginning of \<open>s\<close> takes
  the longest run of word characters (a shorter one is followed by a word character,
  not by the colon), the colon and the quote, and everything up to the next quote,
  which must exist: \<open>match_here\<close> gives the key, the value and the rest of \<open>s\<close>
  after the match.
\<close>

definition isWord :: "char \<Rightarrow> bool" where
  "isWord c = (isUpper c \<or> isLower c \<or> (CHR ''0'' \<le> c \<and> c \<le> CHR ''9'') \<or> c = CHR ''_'')"

definition match_here :: "string \<Rightarrow> (string \<times> string \<times> string) option" where
  "match_here s =
     (let k = takeWhile isWord s in
      if k = [] then None
      else
        (case dropWhile isWord s of
           c1 # c2 # r \<Rightarrow>
             if c1 = CHR '':'' \<and> c2 = DQ then
               (case dropWhile (\<lambda>c. c \<noteq> DQ) r of
                  [] \<Rightarrow> None
                | q # rest \<Rightarrow> Some (k, takeWhile (\<lambda>c. c \<noteq> DQ) r, rest))
             else None
         | _ \<Rightarrow> None))"

text \<open>
  \<open>tagKV.FindAllStringSubmatch(s, -1)\<close>: the successive leftmost matches, none
  overlapping the one before; each as its two groups.
\<close>

function FindAllStringSubmatch :: "string \<Rightarrow> (string \<times> string) list" where
  "FindAllStringSubmatch s =
     (case s of
        [] \<Rightarrow> []
      | c # cs \<Rightarrow>
          (case match_here s of
             Some (k, v, rest) \<Rightarrow> (k, v) # FindAllStringSubmatch rest
           | None \<Rightarrow> FindAllStringSubmatch cs))"
  by pat_completeness auto
termination
proof (relation "measure length")
  show "wf (measure length)" by simp
next
  fix s :: string and c cs
  assume "s = c # cs"
  then show "(cs, s) \<in> measure length" by simp
next
  fix s :: string and c cs x k y v rest
  assume s: "s = c # cs" and m: "match_here s = Some x" and x: "(k, y) = x" "(v, rest) = y"
  from m x [symmetric] obtain c1 c2 r q where
    d: "dropWhile isWord s = c1 # c2 # r" and e: "dropWhile (\<lambda>c. c \<noteq> DQ) r = q # rest"
    by (auto simp: match_here_def Let_def split: if_splits list.splits)
  have "length rest < length (dropWhile (\<lambda>c. c \<noteq> DQ) r)" using e by simp
  also have "\<dots> \<le> length r" by (rule length_dropWhile_le)
  also have "\<dots> < length (dropWhile isWord s)" using d by simp
  also have "\<dots> \<le> length s" by (rule length_dropWhile_le)
  finally show "(rest, s) \<in> measure length" by simp
qed

text \<open>
  A Go \<open>map[string]string\<close> is an association list with one entry for each key;
  \<open>range\<close> visits the entries of a map in an order the language leaves open, which here
  is the order of the list.
\<close>

type_synonym kvmap = "(string \<times> string) list"

definition parseStructTag :: "string \<Rightarrow> kvmap" where
  "parseStructTag tag =
     foldl (\<lambda>out m. AList.update (fst m) (snd m) out) [] (FindAllStringSubmatch tag)"

definition buildStructTag :: "kvmap \<Rightarrow> string" where
  "buildStructTag kv =
     (if length kv = 0 then []
      else Join (sort (map (\<lambda>(k, v). k @ '':'' @ [DQ] @ v @ [DQ]) kv)) '' '')"

text \<open>The loop of \<open>stripIndexPiecesFromGormTag\<close>: what it appends to \<open>keep\<close>.\<close>

fun strip_keep :: "string list \<Rightarrow> string list" where
  "strip_keep [] = []"
| "strip_keep (p # ps) =
     (let pp = TrimSpace p in
      if HasPrefix pp ''index:'' \<or> HasPrefix pp ''uniqueIndex:'' then strip_keep ps
      else pp # strip_keep ps)"

definition stripIndexPiecesFromGormTag :: "string \<Rightarrow> string" where
  "stripIndexPiecesFromGormTag gormTag =
     (if gormTag = [] then []
      else Join (strip_keep (Split gormTag (CHR '';''))) '';'')"

text \<open>\<open>kv[key]\<close>: the empty string when the map has no such key.\<close>

definition lookup :: "kvmap \<Rightarrow> string \<Rightarrow> string" where
  "lookup kv key = (case map_of kv key of None \<Rightarrow> [] | Some v \<Rightarrow> v)"

definition mergeIndexIntoGormTag :: "string \<Rightarrow> string list \<Rightarrow> string" where
  "mergeIndexIntoGormTag orig toAdd =
     (let kv = parseStructTag orig;
          gormVal = stripIndexPiecesFromGormTag (lookup kv ''gorm'');
          gormVal =
            (if length toAdd > 0 then
               (let add = Join toAdd '';'' in
                if gormVal = [] then add else gormVal @ '';'' @ add)
             else gormVal);
          kv = (if gormVal = [] then AList.delete ''gorm'' kv
                else AList.update ''gorm'' gormVal kv)
      in buildStructTag kv)"

section \<open>Models and the two entry points\<close>

text \<open>
  Of a method found by \<open>MethodByName\<close>: the numbers of its parameters and results, and
  the first result of calling it without arguments.
\<close>

datatype rmethod = Method (NumIn: nat) (NumOut: nat) (Call0: rvalue)

text \<open>
  A model, the non-nil \<open>any\<close> the caller passes: its type; the method \<open>Indexes\<close> of the
  pointer receiver \<open>recv\<close>, if there is one; the table name when the model itself
  implements \<open>schema.Tabler\<close>, and the table name when a pointer to it does.
\<close>

record model =
  TypeOf :: gotype
  Indexes :: "rmethod option"
  Tabler :: "string option"
  PtrTabler :: "string option"

text \<open>
  What the migration engine is given: the model itself, or a pointer to a zero value of
  the struct type \<open>reflect.StructOf\<close> builds from the given fields. The engine is not
  part of the code: \<open>AutoMigrate table x\<close> stands for returning what
  \<open>db.AutoMigrate(x)\<close>, or \<open>db.Table(name).AutoMigrate(x)\<close> when \<open>table\<close> is
  \<open>Some name\<close>, returns. Whether \<open>reflect.StructOf\<close> accepts the fields is the
  library's matter and is left out.
\<close>

datatype target = Original model | Clone "StructField list"

datatype outcome = Failed error | Panicked panic | AutoMigrate "string option" target

text \<open>The loop that builds \<open>fields\<close>; a field the source leaves unset has its zero value.\<close>

fun clone_fields :: "StructField list \<Rightarrow> tags \<Rightarrow> StructField list" where
  "clone_fields [] fieldToIndexTags = []"
| "clone_fields (sf # sfs) fieldToIndexTags =
     (if sfPkgPath sf \<noteq> [] then clone_fields sfs fieldToIndexTags
      else
        (let newTag = mergeIndexIntoGormTag (sfTag sf) (fieldToIndexTags (sfName sf)) in
         StructField (sfName sf) [] (sfType sf) newTag 0 (sfAnonymous sf)
           # clone_fields sfs fieldToIndexTags))"

definition AutoMigrateModel :: "(nat \<Rightarrow> addr) \<Rightarrow> model option \<Rightarrow> outcome" where
  "AutoMigrateModel new model =
     (case model of
        None \<Rightarrow> Failed NilModel
      | Some m \<Rightarrow>
          (let base = indirectType (TypeOf m) in
           if Kind base \<noteq> Struct then Failed (NotAStruct (Kind base))
           else
             (case Indexes m of
                None \<Rightarrow> AutoMigrate None (Original m)
              | Some meth \<Rightarrow>
                  if NumIn meth \<noteq> 0 \<or> NumOut meth \<noteq> 1 then AutoMigrate None (Original m)
                  else
                    (let out = Call0 meth in
                     if RKind out \<noteq> Slice then AutoMigrate None (Original m)
                     else if length (Elems out) = 0 then AutoMigrate None (Original m)
                     else
                       (case collectIndexTagsFromIndexesValue new out of
                          Error err \<Rightarrow> Failed err
                        | Panic p \<Rightarrow> Panicked p
                        | Ok fieldToIndexTags \<Rightarrow>
                            (let fields = clone_fields (Fields base) fieldToIndexTags;
                                 ptr = Clone fields
                             in case Tabler m of
                                  Some name \<Rightarrow> AutoMigrate (Some name) ptr
                                | None \<Rightarrow>
                                    (case PtrTabler m of
                                       Some name \<Rightarrow> AutoMigrate (Some name) ptr
                                     | None \<Rightarrow> AutoMigrate None ptr)))))))"

text \<open>
  The loops of \<open>ExtractRequiredExtensions\<close>, on the state \<open>(seen, extensions)\<close>; a nil
  slice is the empty list.
\<close>

fun extensions_of ::
  "rvalue list \<Rightarrow> (string \<Rightarrow> bool) \<times> string list \<Rightarrow> (string \<Rightarrow> bool) \<times> string list" where
  "extensions_of [] st = st"
| "extensions_of (e # es) st =
     (let ext = String_of e; seen = fst st; extensions = snd st in
      if ext \<noteq> [] \<and> \<not> seen ext
      then extensions_of es (seen(ext := True), extensions @ [ext])
      else extensions_of es st)"

fun extensions_loop ::
  "rvalue list \<Rightarrow> (string \<Rightarrow> bool) \<times> string list \<Rightarrow> (string \<Rightarrow> bool) \<times> string list" where
  "extensions_loop [] st = st"
| "extensions_loop (d # ds) st =
     (let def = deref d in
      if RKind def \<noteq> Struct then extensions_loop ds st
      else
        (let extsF = FieldByName def ''Extensions'' in
         if \<not> IsValid extsF \<or> RKind extsF \<noteq> Slice then extensions_loop ds st
         else extensions_loop ds (extensions_of (Elems extsF) st)))"

definition ExtractRequiredExtensions :: "model option \<Rightarrow> string list" where
  "ExtractRequiredExtensions model =
     (case model of
        None \<Rightarrow> []
      | Some m \<Rightarrow>
          (case Indexes m of
             None \<Rightarrow> []
           | Some meth \<Rightarrow>
               if NumIn meth \<noteq> 0 \<or> NumOut meth \<noteq> 1 then []
               else
                 (let out = Call0 meth in
                  if RKind out \<noteq> Slice \<or> length (Elems out) = 0 then []
                  else snd (extensions_loop (Elems out) (\<lambda>ext. False, [])))))"

section \<open>Index declarations\<close>

text \<open>
  The declared types \<open>Col[T]\<close> and \<open>IndexDefinition[T]\<close>. A selector is nil or a
  function \<open>func(*T) any\<close>; of the function the model keeps what it returns for a probe
  at a given address: a nil interface, or the value the interface holds.
\<close>

record Col =
  Sel :: "(addr \<Rightarrow> rvalue option) option"
  Sort :: string
  Nulls :: string
  OpClass :: string

record IndexDefinition =
  Name :: string
  Columns :: "Col list"
  Unique :: bool
  Where :: string
  Type :: string
  Extensions :: "string list"

text \<open>\<open>reflect.ValueOf\<close> of a column, a declaration and a slice of declarations, for the type parameter \<open>T\<close>.\<close>

definition ValueOf_Sel :: "gotype \<Rightarrow> (addr \<Rightarrow> rvalue option) option \<Rightarrow> rvalue" where
  "ValueOf_Sel T sel =
     VFunc (''func(*'' @ TypeName T @ '') interface {}'') [PtrTo T] 1
       (map_option (\<lambda>f new. [VIface ''interface {}'' (f new)]) sel)"

definition ValueOf_Col :: "gotype \<Rightarrow> Col \<Rightarrow> rvalue" where
  "ValueOf_Col T c =
     VStruct (''gormschema.Col['' @ TypeName T @ '']'')
       [(''Sel'', ValueOf_Sel T (Sel c)),
        (''Sort'', VString (Sort c)),
        (''Nulls'', VString (Nulls c)),
        (''OpClass'', VString (OpClass c))]"

definition ValueOf_IndexDefinition :: "gotype \<Rightarrow> IndexDefinition \<Rightarrow> rvalue" where
  "ValueOf_IndexDefinition T d =
     VStruct (''gormschema.IndexDefinition['' @ TypeName T @ '']'')
       [(''Name'', VString (Name d)),
        (''Columns'',
           VSlice (''[]gormschema.Col['' @ TypeName T @ '']'') (map (ValueOf_Col T) (Columns d))),
        (''Unique'', VBool ''bool'' (Unique d)),
        (''Where'', VString (Where d)),
        (''Type'', VString (Type d)),
        (''Extensions'', VSlice ''[]string'' (map VString (Extensions d)))]"

definition ValueOf_Indexes :: "gotype \<Rightarrow> IndexDefinition list \<Rightarrow> rvalue" where
  "ValueOf_Indexes T defs =
     VSlice (''[]gormschema.IndexDefinition['' @ TypeName T @ '']'')
       (map (ValueOf_IndexDefinition T) defs)"

text \<open>The constructors of columns the package exports.\<close>

definition Field :: "(addr \<Rightarrow> rvalue option) option \<Rightarrow> Col" where
  "Field sel = \<lparr>Sel = sel, Sort = [], Nulls = [], OpClass = []\<rparr>"

definition Asc :: "Col \<Rightarrow> Col" where
  "Asc c = c\<lparr>Sort := ''asc''\<rparr>"

definition Desc :: "Col \<Rightarrow> Col" where
  "Desc c = c\<lparr>Sort := ''desc''\<rparr>"

definition NullsFirst :: "Col \<Rightarrow> Col" where
  "NullsFirst c = c\<lparr>Nulls := ''first''\<rparr>"

definition NullsLast :: "Col \<Rightarrow> Col" where
  "NullsLast c = c\<lparr>Nulls := ''last''\<rparr>"

definition Class :: "Col \<Rightarrow> string \<Rightarrow> Col" where
  "Class c cls = c\<lparr>OpClass := cls\<rparr>"

section \<open>Notions used in the statements\<close>

text \<open>The names of a list in the order of their first occurrence, each once.\<close>

function first_occurrences :: "string list \<Rightarrow> string list" where
  "first_occurrences [] = []"
| "first_occurrences (x # xs) = x # first_occurrences (removeAll x xs)"
  by pat_completeness auto
termination
  by (relation "measure length") (auto simp: length_removeAll_less_eq less_Suc_eq_le)

text \<open>
  The statements about declarations speak of: the result of resolving the selector of a
  column \<open>c\<close> against a probe at address \<open>a\<close>; the markers the assembler appends
  for column \<open>j\<close> of a declaration \<open>d\<close> once its selector has resolved to the field
  \<open>fname\<close>, and the fragment they are joined to; the number of probes allocated
  before the one for column \<open>j\<close> of declaration \<open>i\<close>; and the number a decimal
  numeral denotes.
\<close>

definition resolve :: "addr \<Rightarrow> gotype \<Rightarrow> Col \<Rightarrow> (sel_error, string) result" where
  "resolve a T c = snd (fieldNameFromSelectorValue a (ValueOf_Sel T (Sel c)))"

definition markers :: "IndexDefinition \<Rightarrow> nat \<Rightarrow> string \<Rightarrow> string list" where
  "markers d j fname =
     index_parts (Name d) (Unique d) (TrimSpace (Where d)) (TrimSpace (Type d)) j
       (VString (Sort (Columns d ! j))) (VString (Nulls (Columns d ! j)))
       (VString (OpClass (Columns d ! j))) fname"

definition fragment :: "IndexDefinition \<Rightarrow> nat \<Rightarrow> string \<Rightarrow> string" where
  "fragment d j fname = Join (markers d j fname) '',''"

definition probe_index :: "IndexDefinition list \<Rightarrow> nat \<Rightarrow> nat \<Rightarrow> nat" where
  "probe_index defs i j = length (concat (map Columns (take i defs))) + j"

abbreviation col_parts ::
  "string \<Rightarrow> bool \<Rightarrow> string \<Rightarrow> string \<Rightarrow> nat \<Rightarrow> Col \<Rightarrow> string \<Rightarrow> string list" where
  "col_parts name u w ty j c fname \<equiv>
     index_parts name u w ty j (VString (Sort c)) (VString (Nulls c)) (VString (OpClass c)) fname"

definition atoi :: "string \<Rightarrow> nat" where
  "atoi s = foldl (\<lambda>n c. 10 * n + (of_char c - 48)) 0 s"

definition succeeded :: "('e, 'a) result \<Rightarrow> bool" where
  "succeeded r = (case r of Ok x \<Rightarrow> True | Error e \<Rightarrow> False | Panic p \<Rightarrow> False)"

text \<open>
  The fragments are read as lists of pieces between commas, so the statements also speak
  of: a string without a comma; a column \<open>j\<close> of a declaration \<open>d\<close> none of whose texts
  (the declaration's name, predicate and method, the column's order, nulls order and
  operator class) has a comma; the pieces of a fragment; the positions \<open>(i, j)\<close> of all
  columns in the order in which the assembler visits them; the result of resolving the
  selector of the column at a position; and the fragments, in that order, of the columns
  whose selector resolves to the field \<open>f\<close>.
\<close>

definition no_comma :: "string \<Rightarrow> bool" where
  "no_comma s = (CHR '','' \<notin> set s)"

definition plain :: "IndexDefinition \<Rightarrow> nat \<Rightarrow> bool" where
  "plain d j =
     (no_comma (Name d) \<and> no_comma (Where d) \<and> no_comma (Type d) \<and>
      no_comma (Sort (Columns d ! j)) \<and> no_comma (Nulls (Columns d ! j)) \<and>
      no_comma (OpClass (Columns d ! j)))"

definition pieces :: "string \<Rightarrow> string list" where
  "pieces frag = Split frag (CHR '','')"

definition positions :: "IndexDefinition list \<Rightarrow> (nat \<times> nat) list" where
  "positions defs =
     concat (map (\<lambda>i. map (Pair i) [0..<length (Columns (defs ! i))]) [0..<length defs])"

definition resolved_at ::
  "(nat \<Rightarrow> addr) \<Rightarrow> gotype \<Rightarrow> IndexDefinition list \<Rightarrow> nat \<times> nat \<Rightarrow> (sel_error, string) result" where
  "resolved_at new T defs p =
     resolve (new (probe_index defs (fst p) (snd p))) T (Columns (defs ! fst p) ! snd p)"

definition fragments_of ::
  "(nat \<Rightarrow> addr) \<Rightarrow> gotype \<Rightarrow> IndexDefinition list \<Rightarrow> string \<Rightarrow> string list" where
  "fragments_of new T defs f =
     map (\<lambda>p. fragment (defs ! fst p) (snd p) f)
       (filter (\<lambda>p. resolved_at new T defs p = Ok f) (positions defs))"

text \<open>
  For the merge: a piece of a \<open>gorm\<close> value that the merge removes; a list of pieces as
  the merge keeps them (trimmed, none of them an index piece, none with a semicolon);
  the value after the fragments have been appended; an entry as \<open>buildStructTag\<close>
  writes it; an entry that \<open>parseStructTag\<close> can read back (a non-empty key of word
  characters, a value without a quote); the map with its \<open>gorm\<close> key set or deleted;
  and the \<open>gorm\<close> value the merge computes for a tag and a list of fragments.
\<close>

definition indexPiece :: "string \<Rightarrow> bool" where
  "indexPiece pp = (HasPrefix pp ''index:'' \<or> HasPrefix pp ''uniqueIndex:'')"

definition kept :: "string list \<Rightarrow> bool" where
  "kept K = (\<forall>p\<in>set K. TrimSpace p = p \<and> \<not> indexPiece p \<and> CHR '';'' \<notin> set p)"

text \<open>
  A letter in upper case (ASCII); a piece that begins with \<open>index\<close> or \<open>uniqueIndex\<close>
  in any letter case, with or without a name after it; and a piece that is not empty and
  does not begin so.
\<close>

definition upper :: "char \<Rightarrow> char" where
  "upper r = (if isLower r then char_of (of_char r - (32::nat)) else r)"

definition index_declaration :: "string \<Rightarrow> bool" where
  "index_declaration p =
     (prefix ''INDEX'' (map upper p) \<or> prefix ''UNIQUEINDEX'' (map upper p))"

definition other_piece :: "string \<Rightarrow> bool" where
  "other_piece p = (p \<noteq> [] \<and> \<not> index_declaration p)"

definition appended :: "string \<Rightarrow> string list \<Rightarrow> string" where
  "appended gormVal toAdd =
     (if length toAdd > 0 then
        (if gormVal = [] then Join toAdd '';'' else gormVal @ '';'' @ Join toAdd '';'')
      else gormVal)"

definition entry :: "string \<times> string \<Rightarrow> string" where
  "entry e = fst e @ '':'' @ [DQ] @ snd e @ [DQ]"

definition wellformed :: "string \<times> string \<Rightarrow> bool" where
  "wellformed e = (fst e \<noteq> [] \<and> (\<forall>c\<in>set (fst e). isWord c) \<and> DQ \<notin> set (snd e))"

definition set_gorm :: "kvmap \<Rightarrow> string \<Rightarrow> kvmap" where
  "set_gorm kv gormVal =
     (if gormVal = [] then AList.delete ''gorm'' kv else AList.update ''gorm'' gormVal kv)"

definition merged_gorm :: "string \<Rightarrow> string list \<Rightarrow> string" where
  "merged_gorm orig toAdd =
     appended (stripIndexPiecesFromGormTag (lookup (parseStructTag orig) ''gorm'')) toAdd"

text \<open>The first exported field of a probe at address \<open>new\<close> that lies at address \<open>a\<close>.\<close>

definition field_at :: "addr \<Rightarrow> addr \<Rightarrow> StructField list \<Rightarrow> StructField option" where
  "field_at new a fs = find (\<lambda>sf. sfPkgPath sf = [] \<and> new + sfOffset sf = a) fs"

section \<open>The models of the package's tests\<close>

text \<open>
  The selector \<open>func(m *T) any { return &m.F }\<close> for a field \<open>F\<close> at offset \<open>off\<close>
  whose zero value is \<open>zero\<close>: a pointer into the probe.
\<close>

definition field_selector :: "string \<Rightarrow> nat \<Rightarrow> rvalue \<Rightarrow> (addr \<Rightarrow> rvalue option) option" where
  "field_selector ptrType off zero = Some (\<lambda>new. Some (VPtr ptrType (new + off) zero))"

text \<open>An allocator: the address of the \<open>n\<close>-th probe.\<close>

definition example_new :: "nat \<Rightarrow> addr" where
  "example_new n = 4096 + 256 * n"

text \<open>\<open>TestMultipleIndexesWithExtensions\<close> and its \<open>Indexes()\<close>; offsets as on a 64-bit platform.\<close>

definition TestMultipleIndexesWithExtensions :: gotype where
  "TestMultipleIndexesWithExtensions =
     StructType ''TestMultipleIndexesWithExtensions''
       [StructField ''ID'' [] (Basic Uint ''uint'') (''gorm:'' @ [DQ] @ ''primaryKey'' @ [DQ]) 0 False,
        StructField ''Field1'' [] (Basic String ''string'') [] 8 False,
        StructField ''Field2'' [] (Basic String ''string'') [] 24 False]"

definition TestMultipleIndexesWithExtensions_Indexes :: "IndexDefinition list" where
  "TestMultipleIndexesWithExtensions_Indexes =
     [\<lparr>Name = ''idx_1'',
       Columns = [Class (Field (field_selector ''*string'' 8 (VString []))) ''gin_trgm_ops''],
       Unique = False, Where = [], Type = ''gin'',
       Extensions = [''pg_trgm'', ''btree_gin'']\<rparr>,
      \<lparr>Name = ''idx_2'',
       Columns = [Class (Field (field_selector ''*string'' 24 (VString []))) ''gin_trgm_ops''],
       Unique = False, Where = [], Type = ''gin'',
       Extensions = [''pg_trgm'']\<rparr>]"

definition TestMultipleIndexesWithExtensions_model :: model where
  "TestMultipleIndexesWithExtensions_model =
     \<lparr>TypeOf = TestMultipleIndexesWithExtensions,
      Indexes = Some (Method 0 1
        (ValueOf_Indexes TestMultipleIndexesWithExtensions TestMultipleIndexesWithExtensions_Indexes)),
      Tabler = Some ''multi_idx_ext'', PtrTabler = Some ''multi_idx_ext''\<rparr>"

text \<open>\<open>NoIndexes\<close>, a struct without methods.\<close>

definition NoIndexes :: model where
  "NoIndexes =
     \<lparr>TypeOf = StructType ''NoIndexes''
        [StructField ''ID'' [] (Basic Uint ''uint'') [] 0 False,
         StructField ''Name'' [] (Basic String ''string'') [] 8 False],
      Indexes = None, Tabler = None, PtrTabler = None\<rparr>"

text \<open>A model whose method \<open>Indexes\<close> takes an argument: \<open>func (M) Indexes(n int) []string\<close>.\<close>

definition IndexesWithArgument :: model where
  "IndexesWithArgument =
     \<lparr>TypeOf = StructType ''M'' [StructField ''ID'' [] (Basic Uint ''uint'') [] 0 False],
      Indexes = Some (Method 1 1 (VSlice ''[]string'' [VString ''pg_trgm''])),
      Tabler = None, PtrTabler = None\<rparr>"

text \<open>\<open>TestNotebookFile\<close> and \<open>TestBasicIndex\<close> with their \<open>Indexes()\<close>.\<close>

definition TestNotebookFile :: gotype where
  "TestNotebookFile =
     StructType ''TestNotebookFile''
       [StructField ''ID'' [] (Basic Uint ''uint'') (''gorm:'' @ [DQ] @ ''primaryKey'' @ [DQ]) 0 False,
        StructField ''TenantID'' [] (Basic String ''string'') [] 8 False,
        StructField ''ScanVersion'' [] (Basic IntKind ''int'') [] 24 False,
        StructField ''FileName'' [] (Basic String ''string'') [] 32 False]"

definition TestNotebookFile_Indexes :: "IndexDefinition list" where
  "TestNotebookFile_Indexes =
     [\<lparr>Name = ''idx_notebook_files_tenant_scan_filename_trgm'',
       Columns =
         [Field (field_selector ''*string'' 8 (VString [])),
          Field (field_selector ''*int'' 24 (VOther IntKind ''int'')),
          Class (Field (field_selector ''*string'' 32 (VString []))) ''gin_trgm_ops''],
       Unique = False, Where = [], Type = ''gin'', Extensions = []\<rparr>]"

definition TestBasicIndex :: gotype where
  "TestBasicIndex =
     StructType ''TestBasicIndex''
       [StructField ''ID'' [] (Basic Uint ''uint'') (''gorm:'' @ [DQ] @ ''primaryKey'' @ [DQ]) 0 False,
        StructField ''Name'' [] (Basic String ''string'') [] 8 False,
        StructField ''Email'' [] (Basic String ''string'') [] 24 False,
        StructField ''DeletedAt'' [] (PtrTo (Basic String ''string'')) [] 40 False]"

definition TestBasicIndex_Indexes :: "IndexDefinition list" where
  "TestBasicIndex_Indexes =
     [\<lparr>Name = ''idx_basic_name_email'',
       Columns = [Field (field_selector ''*string'' 8 (VString [])),
                  Field (field_selector ''*string'' 24 (VString []))],
       Unique = False, Where = [], Type = [], Extensions = []\<rparr>,
      \<lparr>Name = ''idx_basic_unique_email'',
       Columns = [Field (field_selector ''*string'' 24 (VString []))],
       Unique = True, Where = [], Type = [], Extensions = []\<rparr>,
      \<lparr>Name = ''idx_basic_partial'',
       Columns = [Desc (Field (field_selector ''*string'' 8 (VString [])))],
       Unique = False, Where = ''deleted_at IS NULL'', Type = [], Extensions = []\<rparr>]"

text \<open>
  A declaration whose \<open>Where\<close> is one space, whose \<open>Type\<close> has a space before it, and
  whose second column has one space as its \<open>OpClass\<close>.
\<close>

definition Padded_Indexes :: "IndexDefinition list" where
  "Padded_Indexes =
     [\<lparr>Name = ''idx_padded'',
       Columns = [Field (field_selector ''*string'' 8 (VString [])),
                  Class (Field (field_selector ''*string'' 24 (VString []))) '' ''],
       Unique = False, Where = '' '', Type = '' gin'', Extensions = []\<rparr>]"

text \<open>
  Declarations on \<open>TestBasicIndex\<close> with commas in their texts: one whose \<open>Where\<close> is
  \<open>"a,b"\<close> and whose second column has the \<open>Sort\<close> \<open>"asc,unique,type:gin"\<close>, and one
  whose only column has the \<open>Sort\<close> \<open>"asc,expression:x y"\<close> and no operator class.
\<close>

definition CommaSort_Indexes :: "IndexDefinition list" where
  "CommaSort_Indexes =
     [\<lparr>Name = ''idx_comma'',
       Columns = [Field (field_selector ''*string'' 8 (VString [])),
                  (Field (field_selector ''*string'' 24 (VString [])))\<lparr>Sort := ''asc,unique,type:gin''\<rparr>],
       Unique = False, Where = ''a,b'', Type = [], Extensions = []\<rparr>]"

definition CommaExpression_Indexes :: "IndexDefinition list" where
  "CommaExpression_Indexes =
     [\<lparr>Name = ''idx_comma'',
       Columns = [(Field (field_selector ''*string'' 8 (VString [])))\<lparr>Sort := ''asc,expression:x y''\<rparr>],
       Unique = False, Where = [], Type = [], Extensions = []\<rparr>]"

text \<open>A model that is an \<open>int\<close>.\<close>

definition IntModel :: model where
  "IntModel = \<lparr>TypeOf = Basic IntKind ''int'', Indexes = None, Tabler = None, PtrTabler = None\<rparr>"

text \<open>
  A model of the type \<open>type M int\<close> with the method \<open>func (M) Indexes(n int) []string\<close>.
\<close>

definition IntWithIndexes :: model where
  "IntWithIndexes =
     \<lparr>TypeOf = Basic IntKind ''M'',
      Indexes = Some (Method 1 1 (VSlice ''[]string'' [VString ''pg_trgm''])),
      Tabler = None, PtrTabler = None\<rparr>"

text \<open>
  A declaration on \<open>TestNotebookFile\<close> whose second selector returns the address of a
  local variable, \<open>func(m *TestNotebookFile) any { var x string; return &x }\<close>.
\<close>

definition LocalVariable_Indexes :: "IndexDefinition list" where
  "LocalVariable_Indexes =
     [\<lparr>Name = ''idx_local'',
       Columns = [Field (field_selector ''*string'' 8 (VString [])),
                  Field (Some (\<lambda>new. Some (VPtr ''*string'' 64 (VString []))))],
       Unique = False, Where = [], Type = [], Extensions = []\<rparr>]"

definition LocalVariable_model :: model where
  "LocalVariable_model =
     \<lparr>TypeOf = TestNotebookFile,
      Indexes = Some (Method 0 1 (ValueOf_Indexes TestNotebookFile LocalVariable_Indexes)),
      Tabler = Some ''notebook_files'', PtrTabler = Some ''notebook_files''\<rparr>"

text \<open>
  A tag with an index declared inline; a tag with the keys \<open>a\<close> and \<open>a0\<close>; and a
  declaration whose \<open>Where\<close> has a semicolon.
\<close>

definition legacy_tag :: string where
  "legacy_tag =
     ''json:'' @ [DQ] @ ''file_name'' @ [DQ] @ '' gorm:'' @ [DQ]
       @ ''index:old_idx;type:text; not null'' @ [DQ]"

definition prefix_keys_tag :: string where
  "prefix_keys_tag = ''a:'' @ [DQ] @ ''x'' @ [DQ] @ '' a0:'' @ [DQ] @ ''y'' @ [DQ]"

definition Semicolon_Index :: IndexDefinition where
  "Semicolon_Index =
     \<lparr>Name = ''i'', Columns = [Field (field_selector ''*string'' 8 (VString []))],
      Unique = False, Where = ''a;b'', Type = [], Extensions = []\<rparr>"

text \<open>
  \<open>struct { A struct{}; C int }\<close>, whose two fields are at offset 0, the first one being
  of size zero; and \<open>struct { Base; Title string }\<close> with the embedded
  \<open>Base struct { ID uint; Code string }\<close>.
\<close>

definition ZeroSizeFirst :: gotype where
  "ZeroSizeFirst =
     StructType ''ZeroSizeFirst''
       [StructField ''A'' [] (StructType [] []) [] 0 False,
        StructField ''C'' [] (Basic IntKind ''int'') [] 0 False]"

definition Doc :: gotype where
  "Doc =
     StructType ''Doc''
       [StructField ''Base'' []
          (StructType ''Base''
             [StructField ''ID'' [] (Basic Uint ''uint'') [] 0 False,
              StructField ''Code'' [] (Basic String ''string'') [] 8 False])
          [] 0 True,
        StructField ''Title'' [] (Basic String ''string'') [] 24 False]"

section \<open>Properties of the naming normalizer\<close>

declare snake_loop.simps [simp del]

lemma snake_step_spec:
  "snake_step s i result =
     result @ (if boundary s i then ''_'' else []) @ [lowercase (s ! i)]"
  by (auto simp: snake_step_def boundary_def lowercase_def Let_def)

lemma snake_loop_spec:
  "i \<le> length s \<Longrightarrow>
   snake_loop s i result =
     result @ concat (map (\<lambda>i. (if boundary s i then ''_'' else []) @ [lowercase (s ! i)])
                          [i..<length s])"
proof (induction s i result rule: snake_loop.induct)
  case (1 runes i result)
  show ?case
  proof (cases "i < length runes")
    case True
    then have "snake_loop runes i result
        = snake_loop runes (i + 1) (snake_step runes i result)"
      by (subst snake_loop.simps) simp
    also have "\<dots> = snake_step runes i result @
        concat (map (\<lambda>i. (if boundary runes i then ''_'' else []) @ [lowercase (runes ! i)])
                    [i + 1..<length runes])"
      using True "1.IH" by simp
    finally show ?thesis
      using True by (simp add: snake_step_spec upt_conv_Cons)
  next
    case False
    with "1.prems" have "i = length runes" by simp
    then show ?thesis by (subst snake_loop.simps) simp
  qed
qed

lemma toSnakeCase_spec: "toSnakeCase s = snake_spec s"
  by (simp add: toSnakeCase_def snake_spec_def snake_loop_spec)

text \<open>
  C4. For every input, the naming normalizer puts an underscore before an upper-case
  letter (\<open>'A'..'Z'\<close>) exactly when it is not the first character and the previous or
  the following character is lower-case (\<open>'a'..'z'\<close>), and writes every upper-case
  letter in lower case; it maps \<open>FileName\<close> to \<open>file_name\<close>, \<open>TenantID\<close> to
  \<open>tenant_id\<close>, \<open>ID\<close> to \<open>id\<close>, \<open>HTTPServer\<close> to \<open>http_server\<close>, \<open>APIKey\<close> to
  \<open>api_key\<close> and the empty string to the empty string.
\<close>

theorem toSnakeCase_rule:
  "toSnakeCase s = snake_spec s \<and>
   toSnakeCase ''FileName'' = ''file_name'' \<and>
   toSnakeCase ''TenantID'' = ''tenant_id'' \<and>
   toSnakeCase ''ID'' = ''id'' \<and>
   toSnakeCase ''HTTPServer'' = ''http_server'' \<and>
   toSnakeCase ''APIKey'' = ''api_key'' \<and>
   toSnakeCase [] = []"
proof (intro conjI)
  show "toSnakeCase s = snake_spec s" by (rule toSnakeCase_spec)
  show "toSnakeCase ''FileName'' = ''file_name''" by code_simp
  show "toSnakeCase ''TenantID'' = ''tenant_id''" by code_simp
  show "toSnakeCase ''ID'' = ''id''" by code_simp
  show "toSnakeCase ''HTTPServer'' = ''http_server''" by code_simp
  show "toSnakeCase ''APIKey'' = ''api_key''" by code_simp
  show "toSnakeCase [] = []" by (simp add: toSnakeCase_def)
qed

section \<open>Properties of the extension aggregator\<close>

lemma deref_struct [simp]: "deref (VStruct t fs) = VStruct t fs"
  by (simp add: deref_def)

lemma set_first_occurrences [simp]: "set (first_occurrences xs) = set xs"
  by (induction xs rule: first_occurrences.induct) auto

lemma distinct_first_occurrences [simp]: "distinct (first_occurrences xs)"
  by (induction xs rule: first_occurrences.induct) auto

lemma first_occurrences_distinct: "distinct xs \<Longrightarrow> first_occurrences xs = xs"
  by (induction xs rule: first_occurrences.induct) auto

lemma extensions_of_append:
  "extensions_of (xs @ ys) st = extensions_of ys (extensions_of xs st)"
  by (induction xs arbitrary: st) (auto simp: Let_def)

lemma extensions_of_strings:
  "extensions_of (map VString es) (\<lambda>e. e \<in> set exts, exts) =
     (\<lambda>e. e \<in> set (exts @ first_occurrences (filter (\<lambda>e. e \<noteq> [] \<and> e \<notin> set exts) es)),
      exts @ first_occurrences (filter (\<lambda>e. e \<noteq> [] \<and> e \<notin> set exts) es))"
proof (induction es arbitrary: exts)
  case Nil
  show ?case by simp
next
  case (Cons e es)
  show ?case
  proof (cases "e \<noteq> [] \<and> e \<notin> set exts")
    case True
    have upd: "(\<lambda>x. x \<in> set exts)(e := True) = (\<lambda>x. x \<in> set (exts @ [e]))"
      by (auto simp: fun_eq_iff)
    have flt: "removeAll e (filter (\<lambda>x. x \<noteq> [] \<and> x \<notin> set exts) es)
        = filter (\<lambda>x. x \<noteq> [] \<and> x \<notin> set (exts @ [e])) es"
      by (induction es) auto
    show ?thesis
      using True Cons.IH [of "exts @ [e]"] by (simp add: upd flt)
  next
    case False
    then show ?thesis
      using Cons.IH [of exts] by auto
  qed
qed

lemma extensions_loop_typed:
  "extensions_loop (map (ValueOf_IndexDefinition T) defs) st =
     extensions_of (map VString (concat (map Extensions defs))) st"
  by (induction defs arbitrary: st)
     (simp_all add: ValueOf_IndexDefinition_def extensions_of_append)

lemma takeWhile_removeAll:
  "x \<noteq> y \<Longrightarrow> takeWhile (\<lambda>z. z \<noteq> x) (removeAll y ys) = removeAll y (takeWhile (\<lambda>z. z \<noteq> x) ys)"
proof (induction ys)
  case Nil
  then show ?case by simp
next
  case (Cons a ys)
  then show ?case by (cases "a = x"; cases "a = y"; simp)
qed

lemma takeWhile_first_occurrences:
  "takeWhile (\<lambda>z. z \<noteq> x) (first_occurrences xs) = first_occurrences (takeWhile (\<lambda>z. z \<noteq> x) xs)"
  by (induction xs rule: first_occurrences.induct) (auto simp: takeWhile_removeAll)

lemma ExtractRequiredExtensions_typed:
  assumes "Indexes m = Some (Method 0 1 (ValueOf_Indexes T defs))"
  shows "ExtractRequiredExtensions (Some m) =
           first_occurrences (filter (\<lambda>e. e \<noteq> []) (concat (map Extensions defs)))"
proof -
  have "extensions_of (map VString (concat (map Extensions defs))) (\<lambda>e. e \<in> set [], [])
      = (\<lambda>e. e \<in> set ([] @ first_occurrences (filter (\<lambda>e. e \<noteq> [] \<and> e \<notin> set []) (concat (map Extensions defs)))),
         [] @ first_occurrences (filter (\<lambda>e. e \<noteq> [] \<and> e \<notin> set []) (concat (map Extensions defs))))"
    by (rule extensions_of_strings)
  then have "snd (extensions_loop (map (ValueOf_IndexDefinition T) defs) (\<lambda>e. False, []))
      = first_occurrences (filter (\<lambda>e. e \<noteq> []) (concat (map Extensions defs)))"
    by (simp add: extensions_loop_typed)
  then show ?thesis
    using assms by (cases defs) (simp_all add: ExtractRequiredExtensions_def ValueOf_Indexes_def)
qed

text \<open>
  C5. Extension aggregation returns the empty list for an absent model and for a model
  without \<open>Indexes\<close>. For a model whose \<open>Indexes()\<close> returns the declarations \<open>defs\<close>, it
  returns the non-empty names of the declarations' \<open>Extensions\<close>, declarations in order
  and names in order, each once, in the order of first appearance: the names before a
  name \<open>x\<close> in the result are the names declared before the first occurrence of \<open>x\<close>.
\<close>

theorem extension_aggregation:
  "ExtractRequiredExtensions None = [] \<and>
   (Indexes m = None \<longrightarrow> ExtractRequiredExtensions (Some m) = []) \<and>
   (Indexes m = Some (Method 0 1 (ValueOf_Indexes T defs)) \<longrightarrow>
      ExtractRequiredExtensions (Some m) =
        first_occurrences (filter (\<lambda>e. e \<noteq> []) (concat (map Extensions defs))) \<and>
      distinct (ExtractRequiredExtensions (Some m)) \<and>
      set (ExtractRequiredExtensions (Some m)) = {e \<in> set (concat (map Extensions defs)). e \<noteq> []} \<and>
      (\<forall>x. takeWhile (\<lambda>e. e \<noteq> x) (ExtractRequiredExtensions (Some m)) =
           first_occurrences
             (takeWhile (\<lambda>e. e \<noteq> x) (filter (\<lambda>e. e \<noteq> []) (concat (map Extensions defs))))))"
proof (intro conjI impI)
  show "ExtractRequiredExtensions None = []"
    by (simp add: ExtractRequiredExtensions_def)
  show "ExtractRequiredExtensions (Some m) = []" if "Indexes m = None"
    using that by (simp add: ExtractRequiredExtensions_def)
next
  assume a: "Indexes m = Some (Method 0 1 (ValueOf_Indexes T defs))"
  note eq = ExtractRequiredExtensions_typed [OF a]
  show "ExtractRequiredExtensions (Some m) =
        first_occurrences (filter (\<lambda>e. e \<noteq> []) (concat (map Extensions defs)))"
    by (rule eq)
  show "distinct (ExtractRequiredExtensions (Some m))"
    by (simp add: eq)
  show "set (ExtractRequiredExtensions (Some m)) = {e \<in> set (concat (map Extensions defs)). e \<noteq> []}"
    by (auto simp: eq)
  show "\<forall>x. takeWhile (\<lambda>e. e \<noteq> x) (ExtractRequiredExtensions (Some m)) =
           first_occurrences
             (takeWhile (\<lambda>e. e \<noteq> x) (filter (\<lambda>e. e \<noteq> []) (concat (map Extensions defs))))"
    by (simp add: eq takeWhile_first_occurrences)
qed

theorem extension_aggregation_witness:
  "Indexes TestMultipleIndexesWithExtensions_model =
     Some (Method 0 1 (ValueOf_Indexes TestMultipleIndexesWithExtensions
       TestMultipleIndexesWithExtensions_Indexes)) \<and>
   concat (map Extensions TestMultipleIndexesWithExtensions_Indexes) =
     [''pg_trgm'', ''btree_gin'', ''pg_trgm''] \<and>
   ExtractRequiredExtensions (Some TestMultipleIndexesWithExtensions_model) =
     [''pg_trgm'', ''btree_gin''] \<and>
   Indexes NoIndexes = None \<and> ExtractRequiredExtensions (Some NoIndexes) = []"
  using extension_aggregation [of TestMultipleIndexesWithExtensions_model
      TestMultipleIndexesWithExtensions TestMultipleIndexesWithExtensions_Indexes]
    extension_aggregation [of NoIndexes]
  by (simp add: TestMultipleIndexesWithExtensions_model_def
      TestMultipleIndexesWithExtensions_Indexes_def NoIndexes_def)

section \<open>Properties of the string functions\<close>

declare Split.simps [simp del] trimPrefixes.simps [simp del]

lemma Split_Cons:
  "Split (x # s) c =
     (if x = c then [] # Split s c else (x # hd (Split s c)) # tl (Split s c))"
proof (cases "x = c")
  case True
  then show ?thesis by (subst Split.simps) simp
next
  case False
  show ?thesis
  proof (cases "dropWhile (\<lambda>x. x \<noteq> c) s")
    case Nil
    have "Split s c = [s]" by (subst Split.simps) (simp only: Nil list.case)
    moreover have "dropWhile (\<lambda>x. x \<noteq> c) (x # s) = []" using False Nil by simp
    then have "Split (x # s) c = [x # s]" by (subst Split.simps) (simp only: list.case)
    ultimately show ?thesis using False by simp
  next
    case (Cons y rest)
    have "Split s c = takeWhile (\<lambda>x. x \<noteq> c) s # Split rest c"
      by (subst Split.simps) (simp only: Cons list.case)
    moreover have "dropWhile (\<lambda>x. x \<noteq> c) (x # s) = y # rest" using False Cons by simp
    then have "Split (x # s) c = takeWhile (\<lambda>x. x \<noteq> c) (x # s) # Split rest c"
      by (subst Split.simps) (simp only: list.case)
    then have "Split (x # s) c = (x # takeWhile (\<lambda>x. x \<noteq> c) s) # Split rest c"
      using False by simp
    ultimately show ?thesis using False by simp
  qed
qed

lemma Split_Nil [simp]: "Split [] c = [[]]"
  by (subst Split.simps) simp

lemma Split_not_Nil [simp]: "Split s c \<noteq> []"
  by (induction s) (simp_all add: Split_Cons)

lemma Split_no_separator: "p \<in> set (Split s c) \<Longrightarrow> c \<notin> set p"
proof (induction s arbitrary: p)
  case Nil
  then show ?case by simp
next
  case (Cons x s)
  have ht: "Split s c = hd (Split s c) # tl (Split s c)" by simp
  show ?case
  proof (cases "x = c")
    case True
    with Cons show ?thesis by (auto simp: Split_Cons)
  next
    case False
    with Cons.prems have "p = x # hd (Split s c) \<or> p \<in> set (tl (Split s c))"
      by (simp add: Split_Cons)
    then show ?thesis
    proof
      assume "p = x # hd (Split s c)"
      moreover have "c \<notin> set (hd (Split s c))"
        by (rule Cons.IH) (metis ht list.set_intros(1))
      ultimately show ?thesis using False by simp
    next
      assume "p \<in> set (tl (Split s c))"
      then have "p \<in> set (Split s c)" by (metis ht list.set_intros(2))
      then show ?thesis by (rule Cons.IH)
    qed
  qed
qed

lemma Split_subset: "p \<in> set (Split s c) \<Longrightarrow> set p \<subseteq> set s"
proof (induction s arbitrary: p)
  case Nil
  then show ?case by simp
next
  case (Cons x s)
  have ht: "Split s c = hd (Split s c) # tl (Split s c)" by simp
  have h: "set (hd (Split s c)) \<subseteq> set s"
    by (rule Cons.IH) (metis ht list.set_intros(1))
  have t: "set q \<subseteq> set s" if "q \<in> set (tl (Split s c))" for q
    by (rule Cons.IH) (metis ht list.set_intros(2) that)
  show ?case
  proof (cases "x = c")
    case True
    with Cons.prems have "p = [] \<or> p \<in> set (Split s c)" by (simp add: Split_Cons)
    with Cons.IH show ?thesis by auto
  next
    case False
    with Cons.prems have "p = x # hd (Split s c) \<or> p \<in> set (tl (Split s c))"
      by (simp add: Split_Cons)
    with h t show ?thesis by auto
  qed
qed

lemma Split_no_sep_id: "c \<notin> set s \<Longrightarrow> Split s c = [s]"
  by (induction s) (auto simp: Split_Cons)

lemma Split_append_sep: "Split (a @ c # b) c = Split a c @ Split b c"
proof (induction a)
  case Nil
  show ?case by (simp add: Split_Cons)
next
  case (Cons x a)
  have ht: "Split a c = hd (Split a c) # tl (Split a c)" by simp
  show ?case
  proof (cases "x = c")
    case True
    then show ?thesis using Cons by (simp add: Split_Cons)
  next
    case False
    have "hd (Split a c @ Split b c) = hd (Split a c)" by simp
    moreover have "tl (Split a c @ Split b c) = tl (Split a c) @ Split b c" by simp
    ultimately show ?thesis using False Cons by (simp add: Split_Cons)
  qed
qed

lemma Join_Cons: "ps \<noteq> [] \<Longrightarrow> Join (p # ps) sep = p @ sep @ Join ps sep"
  by (cases ps) simp_all

lemma Join_append:
  "xs \<noteq> [] \<Longrightarrow> ys \<noteq> [] \<Longrightarrow> Join (xs @ ys) sep = Join xs sep @ sep @ Join ys sep"
proof (induction xs)
  case Nil
  then show ?case by simp
next
  case (Cons x xs)
  show ?case
  proof (cases "xs = []")
    case True
    with Cons.prems show ?thesis by (simp add: Join_Cons)
  next
    case False
    with Cons show ?thesis by (simp add: Join_Cons)
  qed
qed

lemma Split_Join:
  "ps \<noteq> [] \<Longrightarrow> \<forall>p\<in>set ps. c \<notin> set p \<Longrightarrow> Split (Join ps [c]) c = ps"
proof (induction ps)
  case Nil
  then show ?case by simp
next
  case (Cons p ps)
  show ?case
  proof (cases "ps = []")
    case True
    with Cons.prems show ?thesis by (simp add: Split_no_sep_id)
  next
    case False
    with Cons have "Split (Join ps [c]) c = ps" by simp
    moreover have "Split p c = [p]" using Cons.prems by (simp add: Split_no_sep_id)
    ultimately show ?thesis
      using False by (simp add: Join_Cons Split_append_sep)
  qed
qed

lemma set_Join: "set (Join ps sep) \<subseteq> \<Union> (set ` set ps) \<union> set sep"
  by (induction ps sep rule: Join.induct) auto

lemma Join_eq_Nil: "Join ps sep = [] \<Longrightarrow> sep \<noteq> [] \<Longrightarrow> ps = [] \<or> ps = [[]]"
  by (induction ps sep rule: Join.induct) auto

lemma trimPrefixes_id:
  "find (\<lambda>e. e \<noteq> [] \<and> prefix e s) encs = None \<Longrightarrow> trimPrefixes encs s = s"
  by (subst trimPrefixes.simps) simp

lemma trimPrefixes_suffix: "\<exists>p. s = p @ trimPrefixes encs s"
proof (induction encs s rule: trimPrefixes.induct)
  case (1 encs s)
  show ?case
  proof (cases "find (\<lambda>e. e \<noteq> [] \<and> prefix e s) encs")
    case None
    then have "trimPrefixes encs s = s" by (rule trimPrefixes_id)
    then show ?thesis by simp
  next
    case (Some e)
    with "1.IH" obtain p where "drop (length e) s = p @ trimPrefixes encs (drop (length e) s)"
      by blast
    then have "s = (take (length e) s @ p) @ trimPrefixes encs (drop (length e) s)"
      by (metis append.assoc append_take_drop_id)
    then have "\<exists>p. s = p @ trimPrefixes encs (drop (length e) s)" by blast
    then show ?thesis
      by (subst trimPrefixes.simps) (simp only: Some option.case)
  qed
qed

lemma trimPrefixes_done:
  "find (\<lambda>e. e \<noteq> [] \<and> prefix e (trimPrefixes encs s)) encs = None"
proof (induction encs s rule: trimPrefixes.induct)
  case (1 encs s)
  show ?case
  proof (cases "find (\<lambda>e. e \<noteq> [] \<and> prefix e s) encs")
    case None
    then have "trimPrefixes encs s = s" by (rule trimPrefixes_id)
    with None show ?thesis by simp
  next
    case (Some e)
    with "1.IH" show ?thesis by (subst trimPrefixes.simps) simp
  qed
qed

lemma trimPrefixes_idem: "trimPrefixes encs (trimPrefixes encs s) = trimPrefixes encs s"
  by (rule trimPrefixes_id) (rule trimPrefixes_done)

lemma prefix_before:
  assumes "prefix e (a @ c # b)" and "c \<notin> set e"
  shows "prefix e a"
proof -
  from assms(1) have "prefix e a \<or> (\<exists>us. e = a @ us \<and> prefix us (c # b))"
    by (simp add: prefix_append)
  then show ?thesis
  proof
    assume "prefix e a"
    then show ?thesis .
  next
    assume "\<exists>us. e = a @ us \<and> prefix us (c # b)"
    then obtain us where us: "e = a @ us" "prefix us (c # b)" by blast
    show ?thesis
    proof (cases us)
      case Nil
      with us show ?thesis by simp
    next
      case (Cons u us')
      with us(2) have "u = c" by simp
      with us(1) Cons assms(2) show ?thesis by simp
    qed
  qed
qed

lemma trimPrefixes_keeps:
  "c \<notin> \<Union> (set ` set encs) \<Longrightarrow> \<exists>a'. trimPrefixes encs (a @ c # b) = a' @ c # b"
proof (induction encs "a @ c # b" arbitrary: a rule: trimPrefixes.induct)
  case (1 encs)
  show ?case
  proof (cases "find (\<lambda>e. e \<noteq> [] \<and> prefix e (a @ c # b)) encs")
    case None
    then have "trimPrefixes encs (a @ c # b) = a @ c # b" by (rule trimPrefixes_id)
    then show ?thesis by blast
  next
    case (Some e)
    then have e: "e \<in> set encs" "prefix e (a @ c # b)"
      by (auto simp: find_Some_iff)
    with "1.prems" have "c \<notin> set e" by blast
    with e(2) have "prefix e a" by (rule prefix_before)
    then obtain a2 where a2: "a = e @ a2" by (auto simp: prefix_def)
    then have d: "drop (length e) (a @ c # b) = a2 @ c # b" by simp
    from "1.hyps" [OF Some d "1.prems"] obtain a' where
      "trimPrefixes encs (a2 @ c # b) = a' @ c # b" by blast
    then show ?thesis
      by (subst trimPrefixes.simps) (simp only: Some option.case d, blast)
  qed
qed

lemma TrimSpace_prefix: "prefix (TrimSpace s) (trimPrefixes space_encodings s)"
proof -
  obtain p where "rev (trimPrefixes space_encodings s) =
      p @ trimPrefixes (map rev space_encodings) (rev (trimPrefixes space_encodings s))"
    using trimPrefixes_suffix by blast
  then have "trimPrefixes space_encodings s = TrimSpace s @ rev p"
    by (metis TrimSpace_def rev_append rev_rev_ident)
  then show ?thesis by (simp add: prefix_def)
qed

lemma set_TrimSpace: "set (TrimSpace s) \<subseteq> set s"
proof -
  obtain p where p: "s = p @ trimPrefixes space_encodings s"
    using trimPrefixes_suffix by blast
  have "set (TrimSpace s) \<subseteq> set (trimPrefixes space_encodings s)"
    using TrimSpace_prefix by (rule set_mono_prefix)
  also have "\<dots> \<subseteq> set s" by (subst (2) p) simp
  finally show ?thesis .
qed

lemma TrimSpace_idem: "TrimSpace (TrimSpace s) = TrimSpace s"
proof -
  let ?t = "trimPrefixes space_encodings s"
  let ?u = "TrimSpace s"
  have "find (\<lambda>e. e \<noteq> [] \<and> prefix e ?u) space_encodings = None"
  proof -
    have "find (\<lambda>e. e \<noteq> [] \<and> prefix e ?t) space_encodings = None"
      by (rule trimPrefixes_done)
    then have "\<forall>e\<in>set space_encodings. \<not> (e \<noteq> [] \<and> prefix e ?t)"
      by (simp add: find_None_iff)
    moreover have "prefix e ?t" if "prefix e ?u" for e
      using that TrimSpace_prefix [of s] by (rule prefix_order.trans)
    ultimately have "\<forall>e\<in>set space_encodings. \<not> (e \<noteq> [] \<and> prefix e ?u)"
      by blast
    then show ?thesis by (simp add: find_None_iff)
  qed
  then have "trimPrefixes space_encodings ?u = ?u" by (rule trimPrefixes_id)
  then have "TrimSpace ?u = rev (trimPrefixes (map rev space_encodings) (rev ?u))"
    by (simp add: TrimSpace_def)
  also have "rev ?u = trimPrefixes (map rev space_encodings) (rev ?t)"
    by (simp add: TrimSpace_def)
  finally show ?thesis
    by (simp add: trimPrefixes_idem TrimSpace_def)
qed

lemma colon_in_no_space: "CHR '':'' \<notin> \<Union> (set ` set (map rev space_encodings))"
  by (simp add: space_encodings_def)

lemma TrimSpace_keeps_index:
  assumes "prefix ''index:'' f"
  shows "prefix ''index:'' (TrimSpace f)"
proof -
  from assms obtain r where f: "f = ''index:'' @ r" by (auto simp: prefix_def)
  have "find (\<lambda>e. e \<noteq> [] \<and> prefix e f) space_encodings = None"
    by (simp add: f space_encodings_def)
  then have t: "trimPrefixes space_encodings f = f" by (rule trimPrefixes_id)
  have "rev f = rev r @ CHR '':'' # ''xedni''" by (simp add: f)
  with trimPrefixes_keeps [OF colon_in_no_space, of "rev r" "''xedni''"] obtain a' where
    "trimPrefixes (map rev space_encodings) (rev f) = a' @ CHR '':'' # ''xedni''"
    by auto
  then have "TrimSpace f = ''index:'' @ rev a'"
    by (simp add: TrimSpace_def t)
  then show ?thesis by (simp add: prefix_def)
qed

lemma Split_Join_concat:
  "ps \<noteq> [] \<Longrightarrow> Split (Join ps [c]) c = concat (map (\<lambda>p. Split p c) ps)"
proof (induction ps)
  case Nil
  then show ?case by simp
next
  case (Cons p ps)
  show ?case
  proof (cases "ps = []")
    case True
    then show ?thesis by simp
  next
    case False
    with Cons show ?thesis by (simp add: Join_Cons Split_append_sep)
  qed
qed

lemma Join_comma_Cons: "Join (p # ps) '','' = p @ concat (map (\<lambda>q. '','' @ q) ps)"
proof (induction ps arbitrary: p)
  case Nil
  show ?case by simp
next
  case (Cons q qs)
  have "Join (p # q # qs) '','' = p @ '','' @ Join (q # qs) '',''" by simp
  with Cons [of q] show ?case by simp
qed

lemma TrimSpace_Nil [simp]: "TrimSpace [] = []"
  using set_TrimSpace [of "[]"] by simp

section \<open>Properties of the fragment assembler\<close>

lemma succeededE: "succeeded r \<Longrightarrow> \<exists>x. r = Ok x"
  by (cases r) (simp_all add: succeeded_def)

lemma collect_columns_typed_step:
  "collect_columns new name u w ty j (ValueOf_Col T c # cs) st =
     (case resolve (new (fst st)) T c of
        Error err \<Rightarrow> Error (SelectorError name (j + 1) err)
      | Panic p \<Rightarrow> Panic p
      | Ok fname \<Rightarrow>
          collect_columns new name u w ty (j + 1) cs
            (fst st + 1, (snd st)(fname := snd st fname @ [Join (col_parts name u w ty j c fname) '',''])))"
  by (simp add: ValueOf_Col_def resolve_def ValueOf_Sel_def Let_def split: result.splits)

lemma collect_columns_Ok:
  "collect_columns new name u w ty j (map (ValueOf_Col T) cs) st = Ok st' \<Longrightarrow>
     fst st' = fst st + length cs \<and>
     (\<forall>f. set (snd st f) \<subseteq> set (snd st' f)) \<and>
     (\<forall>k<length cs. \<exists>fname. resolve (new (fst st + k)) T (cs ! k) = Ok fname \<and>
          Join (col_parts name u w ty (j + k) (cs ! k) fname) '','' \<in> set (snd st' fname))"
proof (induction cs arbitrary: j st)
  case Nil
  then show ?case by simp
next
  case (Cons c cs)
  from Cons.prems obtain fname where
    r: "resolve (new (fst st)) T c = Ok fname" and
    rest: "collect_columns new name u w ty (j + 1) (map (ValueOf_Col T) cs)
            (fst st + 1, (snd st)(fname := snd st fname @ [Join (col_parts name u w ty j c fname) '',''])) = Ok st'"
    by (simp only: list.map collect_columns_typed_step split: result.splits) auto
  let ?st1 = "(fst st + 1, (snd st)(fname := snd st fname @ [Join (col_parts name u w ty j c fname) '','']))"
  note ih = Cons.IH [OF rest]
  have n: "fst st' = fst st + length (c # cs)" using ih by simp
  have mono1: "\<forall>f. set (snd ?st1 f) \<subseteq> set (snd st' f)" using ih by blast
  have mono: "\<forall>f. set (snd st f) \<subseteq> set (snd st' f)"
  proof
    fix f
    have "set (snd st f) \<subseteq> set (snd ?st1 f)" by auto
    with mono1 show "set (snd st f) \<subseteq> set (snd st' f)" by blast
  qed
  have cols: "\<exists>fname. resolve (new (fst st + k)) T ((c # cs) ! k) = Ok fname \<and>
          Join (col_parts name u w ty (j + k) ((c # cs) ! k) fname) '','' \<in> set (snd st' fname)"
    if k: "k < length (c # cs)" for k
  proof (cases k)
    case 0
    have "Join (col_parts name u w ty j c fname) '','' \<in> set (snd ?st1 fname)" by simp
    with mono1 have "Join (col_parts name u w ty j c fname) '','' \<in> set (snd st' fname)" by blast
    with r 0 show ?thesis by auto
  next
    case (Suc k')
    with k have "k' < length cs" by simp
    with ih obtain fn where
      "resolve (new (fst ?st1 + k')) T (cs ! k') = Ok fn"
      "Join (col_parts name u w ty (j + 1 + k') (cs ! k') fn) '','' \<in> set (snd st' fn)"
      by blast
    with Suc show ?thesis by auto
  qed
  from n mono cols show ?case by blast
qed

lemma collect_defs_typed_step:
  "collect_defs new i (ValueOf_IndexDefinition T d # ds) st =
     (case collect_columns new (Name d) (Unique d) (TrimSpace (Where d)) (TrimSpace (Type d)) 0
             (map (ValueOf_Col T) (Columns d)) st of
        Ok st' \<Rightarrow> collect_defs new (i + 1) ds st'
      | Error err \<Rightarrow> Error err
      | Panic p \<Rightarrow> Panic p)"
  by (simp add: ValueOf_IndexDefinition_def Let_def)

lemma collect_defs_Ok:
  "collect_defs new i (map (ValueOf_IndexDefinition T) ds) st = Ok st' \<Longrightarrow>
     fst st' = fst st + length (concat (map Columns ds)) \<and>
     (\<forall>f. set (snd st f) \<subseteq> set (snd st' f)) \<and>
     (\<forall>a<length ds. \<forall>j<length (Columns (ds ! a)). \<exists>fname.
          resolve (new (fst st + probe_index ds a j)) T (Columns (ds ! a) ! j) = Ok fname \<and>
          fragment (ds ! a) j fname \<in> set (snd st' fname))"
proof (induction ds arbitrary: i st)
  case Nil
  then show ?case by simp
next
  case (Cons d ds)
  from Cons.prems have
    "(case collect_columns new (Name d) (Unique d) (TrimSpace (Where d)) (TrimSpace (Type d)) 0
             (map (ValueOf_Col T) (Columns d)) st of
        Ok st1 \<Rightarrow> collect_defs new (i + 1) (map (ValueOf_IndexDefinition T) ds) st1
      | Error err \<Rightarrow> Error err
      | Panic p \<Rightarrow> Panic p) = Ok st'"
    by (simp only: list.map collect_defs_typed_step)
  then obtain st1 where
    c: "collect_columns new (Name d) (Unique d) (TrimSpace (Where d)) (TrimSpace (Type d)) 0
             (map (ValueOf_Col T) (Columns d)) st = Ok st1" and
    rest: "collect_defs new (i + 1) (map (ValueOf_IndexDefinition T) ds) st1 = Ok st'"
    by (auto split: result.splits)
  note h = collect_columns_Ok [OF c]
  note ih = Cons.IH [OF rest]
  have n1: "fst st1 = fst st + length (Columns d)" using h by simp
  have n: "fst st' = fst st + length (concat (map Columns (d # ds)))"
    using ih n1 by simp
  have mono: "\<forall>f. set (snd st f) \<subseteq> set (snd st' f)"
    using h ih by blast
  have cols: "\<exists>fname.
          resolve (new (fst st + probe_index (d # ds) a j)) T (Columns ((d # ds) ! a) ! j) = Ok fname \<and>
          fragment ((d # ds) ! a) j fname \<in> set (snd st' fname)"
    if a: "a < length (d # ds)" and j: "j < length (Columns ((d # ds) ! a))" for a j
  proof (cases a)
    case 0
    with j h obtain fname where
      "resolve (new (fst st + j)) T (Columns d ! j) = Ok fname"
      "Join (col_parts (Name d) (Unique d) (TrimSpace (Where d)) (TrimSpace (Type d)) (0 + j)
               (Columns d ! j) fname) '','' \<in> set (snd st1 fname)"
      by auto
    moreover have "set (snd st1 fname) \<subseteq> set (snd st' fname)" using ih by blast
    ultimately show ?thesis
      using 0 by (auto simp: probe_index_def fragment_def markers_def)
  next
    case (Suc a')
    with a j have "a' < length ds" "j < length (Columns (ds ! a'))" by simp_all
    with ih obtain fname where
      "resolve (new (fst st1 + probe_index ds a' j)) T (Columns (ds ! a') ! j) = Ok fname"
      "fragment (ds ! a') j fname \<in> set (snd st' fname)"
      by blast
    then show ?thesis
      using Suc n1 by (auto simp: probe_index_def add.assoc)
  qed
  from n mono cols show ?case by blast
qed

lemma collect_Ok:
  assumes "collectIndexTagsFromIndexesValue new (ValueOf_Indexes T defs) = Ok tags"
      and "i < length defs" and "j < length (Columns (defs ! i))"
  shows "\<exists>fname. resolve (new (probe_index defs i j)) T (Columns (defs ! i) ! j) = Ok fname \<and>
           fragment (defs ! i) j fname \<in> set (tags fname)"
proof -
  from assms(1) obtain st' where
    "collect_defs new 0 (map (ValueOf_IndexDefinition T) defs) (0, \<lambda>name. []) = Ok st'"
    and t: "tags = snd st'"
    by (auto simp: collectIndexTagsFromIndexesValue_def ValueOf_Indexes_def split: result.splits)
  from collect_defs_Ok [OF this(1)] assms(2,3) t show ?thesis
    by auto
qed

text \<open>Columns that resolve are passed over.\<close>

lemma collect_columns_resolved:
  "(\<forall>k<length cs. \<exists>f. resolve (new (fst st + k)) T (cs ! k) = Ok f) \<Longrightarrow>
   \<exists>tags'. collect_columns new name u w ty j (map (ValueOf_Col T) cs @ rest) st =
            collect_columns new name u w ty (j + length cs) rest (fst st + length cs, tags')"
proof (induction cs arbitrary: j st)
  case Nil
  show ?case by (rule exI [of _ "snd st"]) simp
next
  case (Cons c cs)
  from Cons.prems have "\<exists>f. resolve (new (fst st + 0)) T ((c # cs) ! 0) = Ok f"
    by (metis length_greater_0_conv list.distinct(1))
  then obtain f where f: "resolve (new (fst st)) T c = Ok f" by auto
  let ?st1 = "(fst st + 1, (snd st)(f := snd st f @ [Join (col_parts name u w ty j c f) '','']))"
  have "\<forall>k<length cs. \<exists>f. resolve (new (fst ?st1 + k)) T (cs ! k) = Ok f"
  proof (intro allI impI)
    fix k assume "k < length cs"
    then have "Suc k < length (c # cs)" by simp
    with Cons.prems have "\<exists>f. resolve (new (fst st + Suc k)) T ((c # cs) ! Suc k) = Ok f"
      by blast
    then show "\<exists>f. resolve (new (fst ?st1 + k)) T (cs ! k) = Ok f" by simp
  qed
  from Cons.IH [OF this, of "j + 1"] obtain tags' where
    "collect_columns new name u w ty (j + 1) (map (ValueOf_Col T) cs @ rest) ?st1 =
     collect_columns new name u w ty (j + 1 + length cs) rest (fst ?st1 + length cs, tags')"
    by blast
  then have "collect_columns new name u w ty j (map (ValueOf_Col T) (c # cs) @ rest) st =
     collect_columns new name u w ty (j + length (c # cs)) rest (fst st + length (c # cs), tags')"
    using f by (simp only: list.map append_Cons collect_columns_typed_step) (simp add: add.commute add.left_commute)
  then show ?case by blast
qed

lemma collect_defs_resolved:
  "(\<forall>k<length (concat (map Columns pre)). \<exists>f.
       resolve (new (fst st + k)) T (concat (map Columns pre) ! k) = Ok f) \<Longrightarrow>
   \<exists>tags'. collect_defs new i (map (ValueOf_IndexDefinition T) pre @ rest) st =
            collect_defs new (i + length pre) rest
              (fst st + length (concat (map Columns pre)), tags')"
proof (induction pre arbitrary: i st)
  case Nil
  show ?case by (rule exI [of _ "snd st"]) simp
next
  case (Cons d pre)
  have "\<forall>k<length (Columns d). \<exists>f. resolve (new (fst st + k)) T (Columns d ! k) = Ok f"
  proof (intro allI impI)
    fix k assume k: "k < length (Columns d)"
    then have "k < length (concat (map Columns (d # pre)))" by simp
    with Cons.prems have
      "\<exists>f. resolve (new (fst st + k)) T (concat (map Columns (d # pre)) ! k) = Ok f"
      by blast
    with k show "\<exists>f. resolve (new (fst st + k)) T (Columns d ! k) = Ok f"
      by (simp add: nth_append)
  qed
  from collect_columns_resolved [OF this, of "Name d" "Unique d" "TrimSpace (Where d)"
      "TrimSpace (Type d)" 0 "[]"]
  obtain tags1 where c:
    "collect_columns new (Name d) (Unique d) (TrimSpace (Where d)) (TrimSpace (Type d)) 0
       (map (ValueOf_Col T) (Columns d)) st = Ok (fst st + length (Columns d), tags1)"
    by auto
  let ?st1 = "(fst st + length (Columns d), tags1)"
  have "\<forall>k<length (concat (map Columns pre)). \<exists>f.
       resolve (new (fst ?st1 + k)) T (concat (map Columns pre) ! k) = Ok f"
  proof (intro allI impI)
    fix k assume k: "k < length (concat (map Columns pre))"
    then have "length (Columns d) + k < length (concat (map Columns (d # pre)))" by simp
    with Cons.prems have
      "\<exists>f. resolve (new (fst st + (length (Columns d) + k))) T
             (concat (map Columns (d # pre)) ! (length (Columns d) + k)) = Ok f"
      by blast
    then show "\<exists>f. resolve (new (fst ?st1 + k)) T (concat (map Columns pre) ! k) = Ok f"
      by (simp add: nth_append add.assoc)
  qed
  from Cons.IH [OF this, of "i + 1"] obtain tags' where
    "collect_defs new (i + 1) (map (ValueOf_IndexDefinition T) pre @ rest) ?st1 =
     collect_defs new (i + 1 + length pre) rest
       (fst ?st1 + length (concat (map Columns pre)), tags')"
    by blast
  then have "collect_defs new i (map (ValueOf_IndexDefinition T) (d # pre) @ rest) st =
     collect_defs new (i + length (d # pre)) rest
       (fst st + length (concat (map Columns (d # pre))), tags')"
    using c by (simp only: list.map append_Cons collect_defs_typed_step)
      (simp add: add.commute add.left_commute)
  then show ?case by blast
qed

lemma collect_first_failure:
  assumes cols: "Columns d = cpre @ c # cpost"
      and ok: "\<forall>k<length (concat (map Columns pre) @ cpre). \<exists>f.
                 resolve (new k) T ((concat (map Columns pre) @ cpre) ! k) = Ok f"
      and err: "resolve (new (length (concat (map Columns pre) @ cpre))) T c = Error err"
  shows "collectIndexTagsFromIndexesValue new (ValueOf_Indexes T (pre @ d # post)) =
           Error (SelectorError (Name d) (length cpre + 1) err)"
proof -
  let ?n = "length (concat (map Columns pre))"
  have "\<forall>k<?n. \<exists>f. resolve (new (fst (0::nat, \<lambda>name::string. []::string list) + k)) T
            (concat (map Columns pre) ! k) = Ok f"
  proof (intro allI impI)
    fix k assume k: "k < ?n"
    then have "k < length (concat (map Columns pre) @ cpre)" by simp
    with ok have "\<exists>f. resolve (new k) T ((concat (map Columns pre) @ cpre) ! k) = Ok f" by blast
    with k show "\<exists>f. resolve (new (fst (0::nat, \<lambda>name::string. []::string list) + k)) T
            (concat (map Columns pre) ! k) = Ok f"
      by (simp add: nth_append)
  qed
  from collect_defs_resolved [OF this, of 0 "ValueOf_IndexDefinition T d # map (ValueOf_IndexDefinition T) post"]
  obtain tags1 where d1:
    "collect_defs new 0 (map (ValueOf_IndexDefinition T) (pre @ d # post)) (0, \<lambda>name. []) =
     collect_defs new (length pre) (ValueOf_IndexDefinition T d # map (ValueOf_IndexDefinition T) post)
       (?n, tags1)"
    by auto
  have "\<forall>k<length cpre. \<exists>f. resolve (new (fst (?n, tags1) + k)) T (cpre ! k) = Ok f"
  proof (intro allI impI)
    fix k assume k: "k < length cpre"
    then have "?n + k < length (concat (map Columns pre) @ cpre)" by simp
    with ok have "\<exists>f. resolve (new (?n + k)) T ((concat (map Columns pre) @ cpre) ! (?n + k)) = Ok f"
      by blast
    then show "\<exists>f. resolve (new (fst (?n, tags1) + k)) T (cpre ! k) = Ok f"
      by (simp add: nth_append)
  qed
  from collect_columns_resolved [OF this, of "Name d" "Unique d" "TrimSpace (Where d)"
      "TrimSpace (Type d)" 0 "ValueOf_Col T c # map (ValueOf_Col T) cpost"]
  obtain tags2 where
    "collect_columns new (Name d) (Unique d) (TrimSpace (Where d)) (TrimSpace (Type d)) 0
       (map (ValueOf_Col T) (Columns d)) (?n, tags1) =
     collect_columns new (Name d) (Unique d) (TrimSpace (Where d)) (TrimSpace (Type d)) (length cpre)
       (ValueOf_Col T c # map (ValueOf_Col T) cpost) (?n + length cpre, tags2)"
    using cols by auto
  also have "\<dots> = Error (SelectorError (Name d) (length cpre + 1) err)"
    using err by (simp only: collect_columns_typed_step) simp
  finally have "collect_defs new (length pre)
       (ValueOf_IndexDefinition T d # map (ValueOf_IndexDefinition T) post) (?n, tags1) =
     Error (SelectorError (Name d) (length cpre + 1) err)"
    by (simp only: collect_defs_typed_step) simp
  with d1 show ?thesis
    by (simp add: collectIndexTagsFromIndexesValue_def ValueOf_Indexes_def)
qed

lemma of_char_digit: "d < 10 \<Longrightarrow> of_char (digit d) = (48::nat) + d"
  by (simp add: digit_def)

lemma atoi_append: "atoi (s @ [c]) = 10 * atoi s + (of_char c - 48)"
  by (simp add: atoi_def)

declare itoa.simps [simp del]

lemma atoi_itoa: "atoi (itoa n) = n"
proof (induction n rule: itoa.induct)
  case (1 n)
  show ?case
  proof (cases "n < 10")
    case True
    then show ?thesis
      by (subst itoa.simps) (simp add: atoi_def of_char_digit)
  next
    case False
    then have "atoi (itoa n) = 10 * atoi (itoa (n div 10)) + (of_char (digit (n mod 10)) - 48)"
      by (subst itoa.simps) (simp add: atoi_append)
    also have "\<dots> = 10 * (n div 10) + n mod 10"
      using False "1.IH" by (simp add: of_char_digit)
    finally show ?thesis by simp
  qed
qed

lemma index_parts_eq:
  "index_parts name u w ty j sortF nullF opClassF fname =
     [''index:'' @ name, ''priority:'' @ itoa (j + 1)]
     @ (if TrimSpace (String_of sortF) \<noteq> []
        then [''sort:'' @ TrimSpace (String_of sortF)
               @ (if TrimSpace (String_of nullF) \<noteq> []
                  then '' nulls '' @ TrimSpace (String_of nullF) else [])]
        else [])
     @ (if j = 0 \<and> u then [''unique''] else [])
     @ (if j = 0 \<and> w \<noteq> [] then [''where:'' @ w] else [])
     @ (if j = 0 \<and> ty \<noteq> [] then [''type:'' @ ty] else [])
     @ (if IsValid opClassF \<and> TrimSpace (String_of opClassF) \<noteq> []
        then [''expression:'' @ toSnakeCase fname @ '' '' @ TrimSpace (String_of opClassF)]
        else [])"
  by (simp add: index_parts_def Let_def)

lemma markers_eq:
  "markers d j fname =
     [''index:'' @ Name d, ''priority:'' @ itoa (j + 1)]
     @ (if TrimSpace (Sort (Columns d ! j)) \<noteq> []
        then [''sort:'' @ TrimSpace (Sort (Columns d ! j))
               @ (if TrimSpace (Nulls (Columns d ! j)) \<noteq> []
                  then '' nulls '' @ TrimSpace (Nulls (Columns d ! j)) else [])]
        else [])
     @ (if j = 0 \<and> Unique d then [''unique''] else [])
     @ (if j = 0 \<and> TrimSpace (Where d) \<noteq> [] then [''where:'' @ TrimSpace (Where d)] else [])
     @ (if j = 0 \<and> TrimSpace (Type d) \<noteq> [] then [''type:'' @ TrimSpace (Type d)] else [])
     @ (if TrimSpace (OpClass (Columns d ! j)) \<noteq> []
        then [''expression:'' @ toSnakeCase fname @ '' '' @ TrimSpace (OpClass (Columns d ! j))]
        else [])"
  by (simp add: markers_def index_parts_eq)

lemma markers_index:
  "take 2 (markers d j fname) = [''index:'' @ Name d, ''priority:'' @ itoa (j + 1)]"
  "filter (prefix ''index:'') (markers d j fname) = [''index:'' @ Name d]"
  "filter (prefix ''priority:'') (markers d j fname) = [''priority:'' @ itoa (j + 1)]"
  by (simp_all add: markers_eq)

lemma markers_first_only:
  "filter (\<lambda>p. p = ''unique'') (markers d j fname) = (if j = 0 \<and> Unique d then [''unique''] else [])"
  "filter (prefix ''where:'') (markers d j fname) =
     (if j = 0 \<and> TrimSpace (Where d) \<noteq> [] then [''where:'' @ TrimSpace (Where d)] else [])"
  "filter (prefix ''type:'') (markers d j fname) =
     (if j = 0 \<and> TrimSpace (Type d) \<noteq> [] then [''type:'' @ TrimSpace (Type d)] else [])"
  by (simp_all add: markers_eq)

lemma markers_expression:
  "filter (prefix ''expression:'') (markers d j fname) =
     (if TrimSpace (OpClass (Columns d ! j)) \<noteq> []
      then [''expression:'' @ toSnakeCase fname @ '' '' @ TrimSpace (OpClass (Columns d ! j))]
      else [])"
  by (simp add: markers_eq)

lemma TestNotebookFile_succeeds:
  "succeeded (collectIndexTagsFromIndexesValue example_new
     (ValueOf_Indexes TestNotebookFile TestNotebookFile_Indexes))"
  by code_simp

lemma TestNotebookFile_resolve:
  "resolve (example_new (probe_index TestNotebookFile_Indexes 0 2)) TestNotebookFile
     (Columns (TestNotebookFile_Indexes ! 0) ! 2) = Ok ''FileName''"
  by code_simp

lemma TestBasicIndex_succeeds:
  "succeeded (collectIndexTagsFromIndexesValue example_new
     (ValueOf_Indexes TestBasicIndex TestBasicIndex_Indexes))"
  by code_simp

lemma TestBasicIndex_resolve:
  "resolve (example_new (probe_index TestBasicIndex_Indexes 2 0)) TestBasicIndex
     (Columns (TestBasicIndex_Indexes ! 2) ! 0) = Ok ''Name''"
  by code_simp

lemma upt_Suc_shift: "[0..<Suc n] = 0 # map Suc [0..<n]"
  by (simp add: upt_conv_Cons map_Suc_upt del: upt_Suc)

lemma collect_columns_exact:
  "collect_columns new name u w ty j (map (ValueOf_Col T) cs) st = Ok st' \<Longrightarrow>
   snd st' f = snd st f @
     map (\<lambda>k. Join (col_parts name u w ty (j + k) (cs ! k) f) '','')
       (filter (\<lambda>k. resolve (new (fst st + k)) T (cs ! k) = Ok f) [0..<length cs])"
proof (induction cs arbitrary: j st)
  case Nil
  then show ?case by simp
next
  case (Cons c cs)
  from Cons.prems obtain fname where
    r: "resolve (new (fst st)) T c = Ok fname" and
    rest: "collect_columns new name u w ty (j + 1) (map (ValueOf_Col T) cs)
            (fst st + 1, (snd st)(fname := snd st fname @ [Join (col_parts name u w ty j c fname) '',''])) = Ok st'"
    by (simp only: list.map collect_columns_typed_step split: result.splits) auto
  let ?st1 = "(fst st + 1, (snd st)(fname := snd st fname @ [Join (col_parts name u w ty j c fname) '','']))"
  let ?G = "\<lambda>k. Join (col_parts name u w ty (j + k) ((c # cs) ! k) f) '',''"
  let ?P = "\<lambda>k. resolve (new (fst st + k)) T ((c # cs) ! k) = Ok f"
  have ih: "snd st' f = snd ?st1 f @
     map (\<lambda>k. Join (col_parts name u w ty (j + 1 + k) (cs ! k) f) '','')
       (filter (\<lambda>k. resolve (new (fst ?st1 + k)) T (cs ! k) = Ok f) [0..<length cs])"
    by (rule Cons.IH [OF rest])
  have tailpart: "map ?G (filter ?P (map Suc [0..<length cs])) =
     map (\<lambda>k. Join (col_parts name u w ty (j + 1 + k) (cs ! k) f) '','')
       (filter (\<lambda>k. resolve (new (fst ?st1 + k)) T (cs ! k) = Ok f) [0..<length cs])"
    by (simp add: filter_map o_def)
  have headpart: "snd st f @ map ?G (filter ?P [0]) = snd ?st1 f"
    using r by auto
  have "snd st f @ map ?G (filter ?P [0..<length (c # cs)]) =
      (snd st f @ map ?G (filter ?P [0])) @ map ?G (filter ?P (map Suc [0..<length cs]))"
    by (simp only: length_Cons upt_Suc_shift) simp
  also have "\<dots> = snd st' f"
    by (simp only: headpart tailpart ih)
  finally show ?case by simp
qed

lemma positions_Cons:
  "positions (d # ds) =
     map (Pair 0) [0..<length (Columns d)] @ map (\<lambda>p. (Suc (fst p), snd p)) (positions ds)"
proof -
  have "positions (d # ds) =
      map (Pair 0) [0..<length (Columns d)] @
      concat (map (\<lambda>i. map (Pair (Suc i)) [0..<length (Columns (ds ! i))]) [0..<length ds])"
    by (simp only: positions_def length_Cons upt_Suc_shift) (simp add: o_def)
  moreover have "concat (map (\<lambda>i. map (Pair (Suc i)) [0..<length (Columns (ds ! i))]) [0..<length ds])
      = map (\<lambda>p. (Suc (fst p), snd p)) (positions ds)"
    by (simp add: positions_def map_concat o_def)
  ultimately show ?thesis by simp
qed

lemma probe_index_Cons [simp]:
  "probe_index (d # ds) 0 j = j"
  "probe_index (d # ds) (Suc i) j = length (Columns d) + probe_index ds i j"
  by (simp_all add: probe_index_def)

lemma collect_defs_exact:
  "collect_defs new i (map (ValueOf_IndexDefinition T) ds) st = Ok st' \<Longrightarrow>
   snd st' f = snd st f @
     map (\<lambda>p. fragment (ds ! fst p) (snd p) f)
       (filter (\<lambda>p. resolve (new (fst st + probe_index ds (fst p) (snd p))) T
                      (Columns (ds ! fst p) ! snd p) = Ok f)
          (positions ds))"
proof (induction ds arbitrary: i st)
  case Nil
  then show ?case by (simp add: positions_def)
next
  case (Cons d ds)
  from Cons.prems have
    "(case collect_columns new (Name d) (Unique d) (TrimSpace (Where d)) (TrimSpace (Type d)) 0
             (map (ValueOf_Col T) (Columns d)) st of
        Ok st1 \<Rightarrow> collect_defs new (i + 1) (map (ValueOf_IndexDefinition T) ds) st1
      | Error err \<Rightarrow> Error err
      | Panic p \<Rightarrow> Panic p) = Ok st'"
    by (simp only: list.map collect_defs_typed_step)
  then obtain st1 where
    c: "collect_columns new (Name d) (Unique d) (TrimSpace (Where d)) (TrimSpace (Type d)) 0
             (map (ValueOf_Col T) (Columns d)) st = Ok st1" and
    rest: "collect_defs new (i + 1) (map (ValueOf_IndexDefinition T) ds) st1 = Ok st'"
    by (auto split: result.splits)
  have n1: "fst st1 = fst st + length (Columns d)"
    using collect_columns_Ok [OF c] by simp
  let ?F = "\<lambda>p. fragment ((d # ds) ! fst p) (snd p) f"
  let ?P = "\<lambda>p. resolve (new (fst st + probe_index (d # ds) (fst p) (snd p))) T
                      (Columns ((d # ds) ! fst p) ! snd p) = Ok f"
  have h1: "snd st1 f = snd st f @ map ?F (filter ?P (map (Pair 0) [0..<length (Columns d)]))"
    using collect_columns_exact [OF c, of f]
    by (simp add: filter_map o_def fragment_def markers_def)
  have h2: "snd st' f = snd st1 f @
      map ?F (filter ?P (map (\<lambda>p. (Suc (fst p), snd p)) (positions ds)))"
    using Cons.IH [OF rest] n1 by (simp add: filter_map o_def add.assoc)
  show ?case
    by (simp only: positions_Cons filter_append map_append h2 h1 append_assoc)
qed

lemma collect_exact:
  assumes "collectIndexTagsFromIndexesValue new (ValueOf_Indexes T defs) = Ok tags"
  shows "tags = fragments_of new T defs"
proof
  fix f
  from assms obtain st' where
    c: "collect_defs new 0 (map (ValueOf_IndexDefinition T) defs) (0, \<lambda>name. []) = Ok st'"
    and t: "tags = snd st'"
    by (auto simp: collectIndexTagsFromIndexesValue_def ValueOf_Indexes_def split: result.splits)
  from collect_defs_exact [OF c, of f] t show "tags f = fragments_of new T defs f"
    by (simp add: fragments_of_def resolved_at_def)
qed

lemma no_comma_digit: "d < 10 \<Longrightarrow> digit d \<noteq> CHR '',''"
proof
  assume d: "d < 10" and "digit d = CHR '',''"
  then have "of_char (digit d) = (of_char (CHR '','') :: nat)" by simp
  with d show False by (simp add: of_char_digit)
qed

lemma no_comma_itoa: "no_comma (itoa n)"
proof (induction n rule: itoa.induct)
  case (1 n)
  show ?case
  proof (cases "n < 10")
    case True
    then have "digit n \<noteq> CHR '',''" by (rule no_comma_digit)
    with True show ?thesis
      by (subst itoa.simps) (auto simp: no_comma_def)
  next
    case False
    have "digit (n mod 10) \<noteq> CHR '',''" by (rule no_comma_digit) simp
    with False "1.IH" show ?thesis
      by (subst itoa.simps) (auto simp: no_comma_def)
  qed
qed

lemma no_comma_TrimSpace: "no_comma s \<Longrightarrow> no_comma (TrimSpace s)"
  using set_TrimSpace [of s] by (auto simp: no_comma_def)

lemma plus32_not_comma: "isUpper c \<Longrightarrow> plus32 c \<noteq> CHR '',''"
proof
  assume u: "isUpper c" and "plus32 c = CHR '',''"
  then have "of_char (plus32 c) = (of_char (CHR '','') :: nat)" by simp
  moreover from u have "(65::nat) \<le> of_char c" "of_char c \<le> (90::nat)"
    by (simp_all add: isUpper_def less_eq_char_def)
  ultimately show False by (simp add: plus32_def)
qed

lemma lowercase_not_comma: "c \<noteq> CHR '','' \<Longrightarrow> lowercase c \<noteq> CHR '',''"
  by (simp add: lowercase_def plus32_not_comma)

lemma no_comma_toSnakeCase: "no_comma s \<Longrightarrow> no_comma (toSnakeCase s)"
proof -
  assume s: "no_comma s"
  have "x \<noteq> CHR '',''" if "x \<in> set (snake_spec s)" for x
  proof -
    from that obtain i where i: "i < length s"
      and x: "x \<in> set ((if boundary s i then ''_'' else []) @ [lowercase (s ! i)])"
      by (auto simp: snake_spec_def)
    from i have "s ! i \<in> set s" by (rule nth_mem)
    with s have "s ! i \<noteq> CHR '',''" by (auto simp: no_comma_def)
    then have "lowercase (s ! i) \<noteq> CHR '',''" by (rule lowercase_not_comma)
    with x show ?thesis by (auto split: if_splits)
  qed
  then show ?thesis by (auto simp: no_comma_def toSnakeCase_spec)
qed

lemma matchField_name: "matchField new a fs = Some name \<Longrightarrow> name \<in> sfName ` set fs"
  by (induction fs) (simp_all split: if_splits)

lemma resolver_name:
  assumes "snd (fieldNameFromSelectorValue a sel) = Ok fname"
      and "sel = VFunc tn [PtrTo T] nout impl"
  shows "fname \<in> sfName ` set (Fields T)"
proof (cases impl)
  case None
  with assms show ?thesis
    by (simp add: fieldNameFromSelectorValue_def split: if_splits)
next
  case (Some g)
  with assms have "\<exists>p. matchField a p (Fields T) = Some fname"
    by (simp add: fieldNameFromSelectorValue_def Let_def split: if_splits option.splits) blast+
  then show ?thesis by (auto dest: matchField_name)
qed

lemma resolve_name: "resolve a T c = Ok fname \<Longrightarrow> fname \<in> sfName ` set (Fields T)"
  unfolding resolve_def ValueOf_Sel_def by (rule resolver_name) simp_all

lemma markers_no_comma:
  assumes "plain d j" and "no_comma fname"
  shows "\<forall>m\<in>set (markers d j fname). no_comma m"
proof -
  from assms(1) have
    n: "no_comma (Name d)" and
    w: "no_comma (TrimSpace (Where d))" and t: "no_comma (TrimSpace (Type d))" and
    s: "no_comma (TrimSpace (Sort (Columns d ! j)))" and
    u: "no_comma (TrimSpace (Nulls (Columns d ! j)))" and
    o: "no_comma (TrimSpace (OpClass (Columns d ! j)))"
    by (simp_all add: plain_def no_comma_TrimSpace)
  from assms(2) have f: "no_comma (toSnakeCase fname)" by (rule no_comma_toSnakeCase)
  have i: "no_comma (itoa (j + 1))" by (rule no_comma_itoa)
  from n w t s u o f i show ?thesis
    unfolding markers_eq by (auto simp: no_comma_def)
qed

lemma markers_not_Nil [simp]: "markers d j fname \<noteq> []"
  by (simp add: markers_eq)

lemma pieces_fragment: "pieces (fragment d j fname) = concat (map pieces (markers d j fname))"
proof -
  have "Split (Join (markers d j fname) [CHR '','']) (CHR '','') =
      concat (map (\<lambda>p. Split p (CHR '','')) (markers d j fname))"
    by (rule Split_Join_concat) simp
  then show ?thesis by (simp add: pieces_def [abs_def] fragment_def)
qed

lemma concat_singletons: "\<forall>m\<in>set ms. f m = [m] \<Longrightarrow> concat (map f ms) = ms"
  by (induction ms) simp_all

lemma pieces_markers:
  assumes "plain d j" and "no_comma fname"
  shows "pieces (fragment d j fname) = markers d j fname"
proof -
  have "\<forall>m\<in>set (markers d j fname). pieces m = [m]"
    using markers_no_comma [OF assms] by (simp add: pieces_def no_comma_def Split_no_sep_id)
  then show ?thesis by (simp add: pieces_fragment concat_singletons)
qed

lemma fragment_begins:
  "fragment d j fname =
     ''index:'' @ Name d @ '',priority:'' @ itoa (j + 1)
       @ concat (map (\<lambda>q. '','' @ q) (drop 2 (markers d j fname)))"
proof -
  have "markers d j fname =
      (''index:'' @ Name d) # (''priority:'' @ itoa (j + 1)) # drop 2 (markers d j fname)"
    by (simp add: markers_eq)
  then have "fragment d j fname =
      Join ((''index:'' @ Name d) # (''priority:'' @ itoa (j + 1)) # drop 2 (markers d j fname)) '',''"
    by (simp only: fragment_def)
  then show ?thesis by (simp only: Join_comma_Cons) simp
qed

lemma priority_piece: "''priority:'' @ itoa (j + 1) \<in> set (pieces (fragment d j fname))"
proof -
  have "no_comma (''priority:'' @ itoa (j + 1))"
    using no_comma_itoa [of "j + 1"] by (simp add: no_comma_def)
  then have "pieces (''priority:'' @ itoa (j + 1)) = [''priority:'' @ itoa (j + 1)]"
    by (simp add: pieces_def no_comma_def Split_no_sep_id)
  moreover have "''priority:'' @ itoa (j + 1) \<in> set (markers d j fname)"
    by (simp add: markers_eq)
  ultimately have "\<exists>m\<in>set (markers d j fname). ''priority:'' @ itoa (j + 1) \<in> set (pieces m)"
    by (intro bexI [of _ "''priority:'' @ itoa (j + 1)"]) simp_all
  then show ?thesis
    unfolding pieces_fragment by simp
qed

lemma collect_Ok':
  assumes "collectIndexTagsFromIndexesValue new (ValueOf_Indexes T defs) = Ok tags"
      and "i < length defs" and "j < length (Columns (defs ! i))"
  shows "\<exists>fname. resolved_at new T defs (i, j) = Ok fname \<and>
           fname \<in> sfName ` set (Fields T) \<and>
           fragment (defs ! i) j fname \<in> set (tags fname)"
proof -
  from collect_Ok [OF assms] obtain fname where
    r: "resolve (new (probe_index defs i j)) T (Columns (defs ! i) ! j) = Ok fname"
    and f: "fragment (defs ! i) j fname \<in> set (tags fname)"
    by blast
  from r have "fname \<in> sfName ` set (Fields T)" by (rule resolve_name)
  with r f show ?thesis by (auto simp: resolved_at_def)
qed

lemma TestNotebookFile_FileName:
  "fragments_of example_new TestNotebookFile TestNotebookFile_Indexes ''FileName'' =
     [''index:idx_notebook_files_tenant_scan_filename_trgm,priority:3,expression:file_name gin_trgm_ops'']"
  by code_simp

lemma TestBasicIndex_Name:
  "fragments_of example_new TestBasicIndex TestBasicIndex_Indexes ''Name'' =
     [''index:idx_basic_name_email,priority:1'',
      ''index:idx_basic_partial,priority:1,sort:desc,where:deleted_at IS NULL'']"
  by code_simp

text \<open>
  C6. When the assembler succeeds on the declarations \<open>defs\<close>, the list of every field
  holds exactly the fragments of the columns resolved to that field, in the order of the
  declarations and their columns. The selector of every column, at position \<open>j\<close> of
  declaration \<open>i\<close>, has resolved to a field, and the column's fragment, which is in that
  field's list, is the string \<open>index:<Name>,priority:<j+1>\<close> followed by the column's
  further markers, each after a comma, whatever the column's options are;
  \<open>priority:<j+1>\<close> is one of its pieces between commas, and the numeral is the decimal
  one of \<open>j + 1\<close>.
\<close>

theorem index_and_priority_markers:
  assumes "collectIndexTagsFromIndexesValue new (ValueOf_Indexes T defs) = Ok tags"
      and "i < length defs" and "j < length (Columns (defs ! i))"
  shows "tags = fragments_of new T defs \<and>
         (\<exists>fname. resolved_at new T defs (i, j) = Ok fname \<and>
            fragment (defs ! i) j fname \<in> set (tags fname) \<and>
            fragment (defs ! i) j fname =
              ''index:'' @ Name (defs ! i) @ '',priority:'' @ itoa (j + 1)
                @ concat (map (\<lambda>q. '','' @ q) (drop 2 (markers (defs ! i) j fname))) \<and>
            ''priority:'' @ itoa (j + 1) \<in> set (pieces (fragment (defs ! i) j fname)) \<and>
            atoi (itoa (j + 1)) = j + 1)"
proof
  show "tags = fragments_of new T defs" using assms(1) by (rule collect_exact)
  from collect_Ok' [OF assms] obtain fname where
    "resolved_at new T defs (i, j) = Ok fname"
    "fragment (defs ! i) j fname \<in> set (tags fname)"
    by blast
  moreover note fragment_begins [of "defs ! i" j fname] priority_piece [of j "defs ! i" fname]
    atoi_itoa [of "j + 1"]
  ultimately show "\<exists>fname. resolved_at new T defs (i, j) = Ok fname \<and>
            fragment (defs ! i) j fname \<in> set (tags fname) \<and>
            fragment (defs ! i) j fname =
              ''index:'' @ Name (defs ! i) @ '',priority:'' @ itoa (j + 1)
                @ concat (map (\<lambda>q. '','' @ q) (drop 2 (markers (defs ! i) j fname))) \<and>
            ''priority:'' @ itoa (j + 1) \<in> set (pieces (fragment (defs ! i) j fname)) \<and>
            atoi (itoa (j + 1)) = j + 1"
    by blast
qed

theorem index_and_priority_markers_witness:
  "\<exists>tags. collectIndexTagsFromIndexesValue example_new
            (ValueOf_Indexes TestNotebookFile TestNotebookFile_Indexes) = Ok tags \<and>
          (0::nat) < length TestNotebookFile_Indexes \<and>
          (2::nat) < length (Columns (TestNotebookFile_Indexes ! 0)) \<and>
          tags ''FileName'' =
            [''index:idx_notebook_files_tenant_scan_filename_trgm,priority:3,expression:file_name gin_trgm_ops''] \<and>
          ''priority:3'' \<in> set (pieces (fragment (TestNotebookFile_Indexes ! 0) 2 ''FileName''))"
proof -
  from succeededE [OF TestNotebookFile_succeeds] obtain tags where
    t: "collectIndexTagsFromIndexesValue example_new
          (ValueOf_Indexes TestNotebookFile TestNotebookFile_Indexes) = Ok tags"
    by blast
  have i: "(0::nat) < length TestNotebookFile_Indexes"
    and j: "(2::nat) < length (Columns (TestNotebookFile_Indexes ! 0))"
    by (simp_all add: TestNotebookFile_Indexes_def)
  have r: "resolved_at example_new TestNotebookFile TestNotebookFile_Indexes (0, 2) = Ok ''FileName''"
    using TestNotebookFile_resolve by (simp add: resolved_at_def)
  have n: "itoa (2 + 1) = ''3''" by code_simp
  from index_and_priority_markers [OF t i j] have
    "tags = fragments_of example_new TestNotebookFile TestNotebookFile_Indexes"
    "''priority:'' @ itoa (2 + 1) \<in> set (pieces (fragment (TestNotebookFile_Indexes ! 0) 2 ''FileName''))"
    by (auto simp: r)
  with t i j n show ?thesis
    by (auto simp: TestNotebookFile_FileName)
qed

text \<open>
  C2, amended. When the assembler succeeds, the list of every field holds exactly the
  fragments of the columns resolved to it. For a column none of whose texts has a comma
  (no field name has one), the pieces between commas of the column's fragment contain
  \<open>unique\<close> exactly when the column is at position \<open>0\<close> and \<open>Unique\<close> is true; their
  only piece that begins with \<open>where:\<close> is \<open>where:<p>\<close>, present exactly when the column
  is at position \<open>0\<close> and \<open>Where\<close> without its leading and trailing white space is a
  non-empty string \<open>p\<close>; and likewise \<open>type:<t>\<close> for \<open>Type\<close>.
\<close>

theorem first_column_markers:
  assumes "collectIndexTagsFromIndexesValue new (ValueOf_Indexes T defs) = Ok tags"
      and "i < length defs" and "j < length (Columns (defs ! i))"
      and "plain (defs ! i) j" and "\<forall>sf\<in>set (Fields T). no_comma (sfName sf)"
  shows "tags = fragments_of new T defs \<and>
         (\<exists>fname. resolved_at new T defs (i, j) = Ok fname \<and>
            fragment (defs ! i) j fname \<in> set (tags fname) \<and>
            filter (\<lambda>p. p = ''unique'') (pieces (fragment (defs ! i) j fname)) =
              (if j = 0 \<and> Unique (defs ! i) then [''unique''] else []) \<and>
            filter (prefix ''where:'') (pieces (fragment (defs ! i) j fname)) =
              (if j = 0 \<and> TrimSpace (Where (defs ! i)) \<noteq> []
               then [''where:'' @ TrimSpace (Where (defs ! i))] else []) \<and>
            filter (prefix ''type:'') (pieces (fragment (defs ! i) j fname)) =
              (if j = 0 \<and> TrimSpace (Type (defs ! i)) \<noteq> []
               then [''type:'' @ TrimSpace (Type (defs ! i))] else []))"
proof
  show "tags = fragments_of new T defs" using assms(1) by (rule collect_exact)
  from collect_Ok' [OF assms(1-3)] obtain fname where
    r: "resolved_at new T defs (i, j) = Ok fname"
    and n: "fname \<in> sfName ` set (Fields T)"
    and f: "fragment (defs ! i) j fname \<in> set (tags fname)"
    by blast
  from n assms(5) have "no_comma fname" by auto
  with assms(4) have p: "pieces (fragment (defs ! i) j fname) = markers (defs ! i) j fname"
    by (rule pieces_markers)
  from r f show "\<exists>fname. resolved_at new T defs (i, j) = Ok fname \<and>
            fragment (defs ! i) j fname \<in> set (tags fname) \<and>
            filter (\<lambda>p. p = ''unique'') (pieces (fragment (defs ! i) j fname)) =
              (if j = 0 \<and> Unique (defs ! i) then [''unique''] else []) \<and>
            filter (prefix ''where:'') (pieces (fragment (defs ! i) j fname)) =
              (if j = 0 \<and> TrimSpace (Where (defs ! i)) \<noteq> []
               then [''where:'' @ TrimSpace (Where (defs ! i))] else []) \<and>
            filter (prefix ''type:'') (pieces (fragment (defs ! i) j fname)) =
              (if j = 0 \<and> TrimSpace (Type (defs ! i)) \<noteq> []
               then [''type:'' @ TrimSpace (Type (defs ! i))] else [])"
    by (intro exI [of _ fname]) (simp only: p markers_first_only simp_thms)
qed

theorem first_column_markers_witness:
  "\<exists>tags. collectIndexTagsFromIndexesValue example_new
            (ValueOf_Indexes TestBasicIndex TestBasicIndex_Indexes) = Ok tags \<and>
          (2::nat) < length TestBasicIndex_Indexes \<and>
          (0::nat) < length (Columns (TestBasicIndex_Indexes ! 2)) \<and>
          plain (TestBasicIndex_Indexes ! 2) 0 \<and>
          map (\<lambda>sf. no_comma (sfName sf)) (Fields TestBasicIndex) = [True, True, True, True] \<and>
          tags ''Name'' =
            [''index:idx_basic_name_email,priority:1'',
             ''index:idx_basic_partial,priority:1,sort:desc,where:deleted_at IS NULL''] \<and>
          filter (prefix ''where:'') (pieces (fragment (TestBasicIndex_Indexes ! 2) 0 ''Name'')) =
            [''where:deleted_at IS NULL'']"
proof -
  from succeededE [OF TestBasicIndex_succeeds] obtain tags where
    t: "collectIndexTagsFromIndexesValue example_new
          (ValueOf_Indexes TestBasicIndex TestBasicIndex_Indexes) = Ok tags"
    by blast
  have i: "(2::nat) < length TestBasicIndex_Indexes"
    and j: "(0::nat) < length (Columns (TestBasicIndex_Indexes ! 2))"
    by (simp_all add: TestBasicIndex_Indexes_def)
  have p: "plain (TestBasicIndex_Indexes ! 2) 0" by code_simp
  have n: "\<forall>sf\<in>set (Fields TestBasicIndex). no_comma (sfName sf)" by code_simp
  have n': "map (\<lambda>sf. no_comma (sfName sf)) (Fields TestBasicIndex) = [True, True, True, True]"
    by code_simp
  have r: "resolved_at example_new TestBasicIndex TestBasicIndex_Indexes (2, 0) = Ok ''Name''"
    using TestBasicIndex_resolve by (simp add: resolved_at_def)
  have w: "TrimSpace (Where (TestBasicIndex_Indexes ! 2)) = ''deleted_at IS NULL''"
    by code_simp
  from first_column_markers [OF t i j p n] have
    "tags = fragments_of example_new TestBasicIndex TestBasicIndex_Indexes"
    "filter (prefix ''where:'') (pieces (fragment (TestBasicIndex_Indexes ! 2) 0 ''Name'')) =
       [''where:deleted_at IS NULL'']"
    by (auto simp: r w)
  with t i j p n' show ?thesis
    by (auto simp: TestBasicIndex_Name)
qed

text \<open>
  As C2 is worded it fails. A \<open>Where\<close> of one space is not empty and yields no
  \<open>where\<close> piece, and the \<open>Type\<close> \<open>" gin"\<close> yields \<open>type:gin\<close>. And the texts are
  written into the fragment as they are: with the \<open>Sort\<close> \<open>"asc,unique,type:gin"\<close> the
  fragment of the column at position \<open>1\<close> of a declaration that is not unique and has no
  \<open>Type\<close> has the pieces \<open>unique\<close> and \<open>type:gin\<close>, and the \<open>Where\<close> \<open>"a,b"\<close>
  yields the pieces \<open>where:a\<close> and \<open>b\<close>.
\<close>

theorem first_column_markers_counterexample:
  "Where (Padded_Indexes ! 0) = '' '' \<and> Type (Padded_Indexes ! 0) = '' gin'' \<and>
   (case collectIndexTagsFromIndexesValue example_new (ValueOf_Indexes TestBasicIndex Padded_Indexes) of
      Ok tags \<Rightarrow> tags ''Name'' | Error err \<Rightarrow> [] | Panic p \<Rightarrow> []) =
     [''index:idx_padded,priority:1,type:gin''] \<and>
   Unique (CommaSort_Indexes ! 0) = False \<and> Type (CommaSort_Indexes ! 0) = [] \<and>
   Where (CommaSort_Indexes ! 0) = ''a,b'' \<and>
   (case collectIndexTagsFromIndexesValue example_new (ValueOf_Indexes TestBasicIndex CommaSort_Indexes) of
      Ok tags \<Rightarrow> map pieces (tags ''Email'') | Error err \<Rightarrow> [] | Panic p \<Rightarrow> []) =
     [[''index:idx_comma'', ''priority:2'', ''sort:asc'', ''unique'', ''type:gin'']] \<and>
   (case collectIndexTagsFromIndexesValue example_new (ValueOf_Indexes TestBasicIndex CommaSort_Indexes) of
      Ok tags \<Rightarrow> map pieces (tags ''Name'') | Error err \<Rightarrow> [] | Panic p \<Rightarrow> []) =
     [[''index:idx_comma'', ''priority:1'', ''where:a'', ''b'']]"
  by code_simp

text \<open>
  C3, amended. When the assembler succeeds, the list of every field holds exactly the
  fragments of the columns resolved to it. For a column, at any position, none of whose
  texts has a comma (no field name has one), the only piece between commas of the
  column's fragment that begins with \<open>expression:\<close> is \<open>expression:<n> <cls>\<close>, with
  \<open>n\<close> the snake-case form of the resolved field name, present exactly when
  \<open>OpClass\<close> without its leading and trailing white space is a non-empty string \<open>cls\<close>.
\<close>

theorem operator_class_expression:
  assumes "collectIndexTagsFromIndexesValue new (ValueOf_Indexes T defs) = Ok tags"
      and "i < length defs" and "j < length (Columns (defs ! i))"
      and "plain (defs ! i) j" and "\<forall>sf\<in>set (Fields T). no_comma (sfName sf)"
  shows "tags = fragments_of new T defs \<and>
         (\<exists>fname. resolved_at new T defs (i, j) = Ok fname \<and>
            fragment (defs ! i) j fname \<in> set (tags fname) \<and>
            filter (prefix ''expression:'') (pieces (fragment (defs ! i) j fname)) =
              (if TrimSpace (OpClass (Columns (defs ! i) ! j)) \<noteq> []
               then [''expression:'' @ toSnakeCase fname @ '' ''
                       @ TrimSpace (OpClass (Columns (defs ! i) ! j))]
               else []))"
proof
  show "tags = fragments_of new T defs" using assms(1) by (rule collect_exact)
  from collect_Ok' [OF assms(1-3)] obtain fname where
    r: "resolved_at new T defs (i, j) = Ok fname"
    and n: "fname \<in> sfName ` set (Fields T)"
    and f: "fragment (defs ! i) j fname \<in> set (tags fname)"
    by blast
  from n assms(5) have "no_comma fname" by auto
  with assms(4) have p: "pieces (fragment (defs ! i) j fname) = markers (defs ! i) j fname"
    by (rule pieces_markers)
  from r f show "\<exists>fname. resolved_at new T defs (i, j) = Ok fname \<and>
            fragment (defs ! i) j fname \<in> set (tags fname) \<and>
            filter (prefix ''expression:'') (pieces (fragment (defs ! i) j fname)) =
              (if TrimSpace (OpClass (Columns (defs ! i) ! j)) \<noteq> []
               then [''expression:'' @ toSnakeCase fname @ '' ''
                       @ TrimSpace (OpClass (Columns (defs ! i) ! j))]
               else [])"
    by (intro exI [of _ fname]) (simp only: p markers_expression simp_thms)
qed

theorem operator_class_expression_witness:
  "\<exists>tags. collectIndexTagsFromIndexesValue example_new
            (ValueOf_Indexes TestNotebookFile TestNotebookFile_Indexes) = Ok tags \<and>
          (0::nat) < length TestNotebookFile_Indexes \<and>
          (2::nat) < length (Columns (TestNotebookFile_Indexes ! 0)) \<and>
          plain (TestNotebookFile_Indexes ! 0) 2 \<and>
          map (\<lambda>sf. no_comma (sfName sf)) (Fields TestNotebookFile) = [True, True, True, True] \<and>
          tags ''FileName'' =
            [''index:idx_notebook_files_tenant_scan_filename_trgm,priority:3,expression:file_name gin_trgm_ops''] \<and>
          filter (prefix ''expression:'')
              (pieces (fragment (TestNotebookFile_Indexes ! 0) 2 ''FileName'')) =
            [''expression:file_name gin_trgm_ops'']"
proof -
  from succeededE [OF TestNotebookFile_succeeds] obtain tags where
    t: "collectIndexTagsFromIndexesValue example_new
          (ValueOf_Indexes TestNotebookFile TestNotebookFile_Indexes) = Ok tags"
    by blast
  have i: "(0::nat) < length TestNotebookFile_Indexes"
    and j: "(2::nat) < length (Columns (TestNotebookFile_Indexes ! 0))"
    by (simp_all add: TestNotebookFile_Indexes_def)
  have p: "plain (TestNotebookFile_Indexes ! 0) 2" by code_simp
  have n: "\<forall>sf\<in>set (Fields TestNotebookFile). no_comma (sfName sf)" by code_simp
  have n': "map (\<lambda>sf. no_comma (sfName sf)) (Fields TestNotebookFile) = [True, True, True, True]"
    by code_simp
  have r: "resolved_at example_new TestNotebookFile TestNotebookFile_Indexes (0, 2) = Ok ''FileName''"
    using TestNotebookFile_resolve by (simp add: resolved_at_def)
  have c: "TrimSpace (OpClass (Columns (TestNotebookFile_Indexes ! 0) ! 2)) = ''gin_trgm_ops''"
    by code_simp
  have s: "toSnakeCase ''FileName'' = ''file_name''" by code_simp
  from operator_class_expression [OF t i j p n] have
    "tags = fragments_of example_new TestNotebookFile TestNotebookFile_Indexes"
    "filter (prefix ''expression:'')
        (pieces (fragment (TestNotebookFile_Indexes ! 0) 2 ''FileName'')) =
       [''expression:file_name gin_trgm_ops'']"
    by (auto simp: r c s)
  with t i j p n' show ?thesis
    by (auto simp: TestNotebookFile_FileName)
qed

text \<open>
  As C3 is worded it fails. An \<open>OpClass\<close> of one space is not empty and yields no
  expression piece. And with the \<open>Sort\<close> \<open>"asc,expression:x y"\<close> the fragment of a column
  without an operator class has the piece \<open>expression:x y\<close>.
\<close>

theorem operator_class_expression_counterexample:
  "OpClass (Columns (Padded_Indexes ! 0) ! 1) = '' '' \<and>
   (case collectIndexTagsFromIndexesValue example_new (ValueOf_Indexes TestBasicIndex Padded_Indexes) of
      Ok tags \<Rightarrow> tags ''Email'' | Error err \<Rightarrow> [] | Panic p \<Rightarrow> []) =
     [''index:idx_padded,priority:2''] \<and>
   OpClass (Columns (CommaExpression_Indexes ! 0) ! 0) = [] \<and>
   (case collectIndexTagsFromIndexesValue example_new
           (ValueOf_Indexes TestBasicIndex CommaExpression_Indexes) of
      Ok tags \<Rightarrow> map pieces (tags ''Name'') | Error err \<Rightarrow> [] | Panic p \<Rightarrow> []) =
     [[''index:idx_comma'', ''priority:1'', ''sort:asc'', ''expression:x y'']]"
  by code_simp

section \<open>Properties of \<open>AutoMigrateModel\<close>\<close>

text \<open>
  C8, amended. For a model whose type, pointers removed, is a struct and that has no
  method \<open>Indexes\<close>, or whose \<open>Indexes()\<close> returns an empty slice, \<open>AutoMigrateModel\<close>
  returns what \<open>db.AutoMigrate(model)\<close> returns for the model itself: no projection is
  built and no error of its own is returned.
\<close>

theorem no_declarations_passthrough:
  assumes "Kind (indirectType (TypeOf m)) = Struct"
      and "Indexes m = None \<or> (\<exists>t. Indexes m = Some (Method 0 1 (VSlice t [])))"
  shows "AutoMigrateModel new (Some m) = AutoMigrate None (Original m)"
  using assms by (auto simp: AutoMigrateModel_def)

theorem no_declarations_passthrough_witness:
  "Kind (indirectType (TypeOf NoIndexes)) = Struct \<and> Indexes NoIndexes = None \<and>
   AutoMigrateModel example_new (Some NoIndexes) = AutoMigrate None (Original NoIndexes) \<and>
   Kind (indirectType (TypeOf (NoIndexes\<lparr>Indexes := Some (Method 0 1 (VSlice ''[]T'' []))\<rparr>))) = Struct \<and>
   AutoMigrateModel example_new (Some (NoIndexes\<lparr>Indexes := Some (Method 0 1 (VSlice ''[]T'' []))\<rparr>)) =
     AutoMigrate None (Original (NoIndexes\<lparr>Indexes := Some (Method 0 1 (VSlice ''[]T'' []))\<rparr>))"
  using no_declarations_passthrough [of NoIndexes example_new]
    no_declarations_passthrough [of "NoIndexes\<lparr>Indexes := Some (Method 0 1 (VSlice ''[]T'' []))\<rparr>" example_new]
  by (simp add: NoIndexes_def)

text \<open>
  As C8 is worded it fails: a model that is an \<open>int\<close> has no method \<open>Indexes\<close> and is
  refused with \<open>model must be a struct or *struct\<close>, and an absent model is refused with
  \<open>nil model\<close>.
\<close>

theorem no_declarations_passthrough_counterexample:
  "Indexes IntModel = None \<and>
   AutoMigrateModel example_new (Some IntModel) = Failed (NotAStruct IntKind) \<and>
   AutoMigrateModel example_new None = Failed NilModel"
  by (simp add: AutoMigrateModel_def IntModel_def)

text \<open>
  C10, amended. When the method \<open>Indexes\<close> of a model exists but takes arguments, does
  not return exactly one value, or returns something that is no slice,
  \<open>ExtractRequiredExtensions\<close> returns nil and, when the model's type, pointers removed,
  is a struct, \<open>AutoMigrateModel\<close> returns what \<open>db.AutoMigrate(model)\<close> returns for the
  model itself, without synthesis and without an error of its own.
\<close>

theorem unexpected_Indexes_ignored:
  assumes "Indexes m = Some meth"
      and "NumIn meth \<noteq> 0 \<or> NumOut meth \<noteq> 1 \<or> RKind (Call0 meth) \<noteq> Slice"
  shows "(Kind (indirectType (TypeOf m)) = Struct \<longrightarrow>
            AutoMigrateModel new (Some m) = AutoMigrate None (Original m)) \<and>
         ExtractRequiredExtensions (Some m) = []"
  using assms by (auto simp: AutoMigrateModel_def ExtractRequiredExtensions_def Let_def)

theorem unexpected_Indexes_ignored_witness:
  "Indexes IndexesWithArgument = Some (Method 1 1 (VSlice ''[]string'' [VString ''pg_trgm''])) \<and>
   NumIn (Method 1 1 (VSlice ''[]string'' [VString ''pg_trgm''])) \<noteq> 0 \<and>
   Kind (indirectType (TypeOf IndexesWithArgument)) = Struct \<and>
   AutoMigrateModel example_new (Some IndexesWithArgument) = AutoMigrate None (Original IndexesWithArgument) \<and>
   ExtractRequiredExtensions (Some IndexesWithArgument) = []"
  using unexpected_Indexes_ignored [of IndexesWithArgument
      "Method 1 1 (VSlice ''[]string'' [VString ''pg_trgm''])" example_new]
  by (simp add: IndexesWithArgument_def)

text \<open>
  As C10 is worded it fails: a model of the type \<open>type M int\<close> whose method \<open>Indexes\<close>
  takes an argument is refused with \<open>model must be a struct or *struct\<close>.
\<close>

theorem unexpected_Indexes_ignored_counterexample:
  "Indexes IntWithIndexes = Some (Method 1 1 (VSlice ''[]string'' [VString ''pg_trgm''])) \<and>
   NumIn (Method 1 1 (VSlice ''[]string'' [VString ''pg_trgm''])) = 1 \<and>
   AutoMigrateModel example_new (Some IntWithIndexes) = Failed (NotAStruct IntKind) \<and>
   ExtractRequiredExtensions (Some IntWithIndexes) = []"
  by (simp add: AutoMigrateModel_def ExtractRequiredExtensions_def IntWithIndexes_def Let_def)

text \<open>
  C9. \<open>AutoMigrateModel\<close> fails with \<open>nil model\<close> for an absent model and with
  \<open>model must be a struct or *struct\<close> when the model's type, pointers removed, is no
  struct. When the selectors of all columns before column \<open>c\<close> of declaration \<open>d\<close>
  resolve and the selector of \<open>c\<close> fails with \<open>err\<close>, it fails with \<open>err\<close> wrapped
  with the name of \<open>d\<close> and the position of \<open>c\<close>, counted from one; the engine is not
  called, so no projection is returned.
\<close>

theorem synthesis_failures:
  "AutoMigrateModel new None = Failed NilModel \<and>
   (Kind (indirectType (TypeOf m)) \<noteq> Struct \<longrightarrow>
      AutoMigrateModel new (Some m) = Failed (NotAStruct (Kind (indirectType (TypeOf m))))) \<and>
   (Kind (indirectType (TypeOf m)) = Struct \<and>
    Indexes m = Some (Method 0 1 (ValueOf_Indexes T (pre @ d # post))) \<and>
    Columns d = cpre @ c # cpost \<and>
    (\<forall>k<length (concat (map Columns pre) @ cpre). \<exists>f.
        resolve (new k) T ((concat (map Columns pre) @ cpre) ! k) = Ok f) \<and>
    resolve (new (length (concat (map Columns pre) @ cpre))) T c = Error err \<longrightarrow>
      AutoMigrateModel new (Some m) = Failed (SelectorError (Name d) (length cpre + 1) err))"
proof (intro conjI impI)
  show "AutoMigrateModel new None = Failed NilModel"
    by (simp add: AutoMigrateModel_def)
  show "AutoMigrateModel new (Some m) = Failed (NotAStruct (Kind (indirectType (TypeOf m))))"
    if "Kind (indirectType (TypeOf m)) \<noteq> Struct"
    using that by (simp add: AutoMigrateModel_def Let_def)
next
  assume a: "Kind (indirectType (TypeOf m)) = Struct \<and>
    Indexes m = Some (Method 0 1 (ValueOf_Indexes T (pre @ d # post))) \<and>
    Columns d = cpre @ c # cpost \<and>
    (\<forall>k<length (concat (map Columns pre) @ cpre). \<exists>f.
        resolve (new k) T ((concat (map Columns pre) @ cpre) ! k) = Ok f) \<and>
    resolve (new (length (concat (map Columns pre) @ cpre))) T c = Error err"
  then have "collectIndexTagsFromIndexesValue new (ValueOf_Indexes T (pre @ d # post)) =
           Error (SelectorError (Name d) (length cpre + 1) err)"
    by (intro collect_first_failure) blast+
  moreover have "RKind (ValueOf_Indexes T (pre @ d # post)) = Slice"
    "Elems (ValueOf_Indexes T (pre @ d # post)) \<noteq> []"
    by (simp_all add: ValueOf_Indexes_def)
  ultimately show "AutoMigrateModel new (Some m) = Failed (SelectorError (Name d) (length cpre + 1) err)"
    using a by (simp add: AutoMigrateModel_def Let_def)
qed

theorem synthesis_failures_witness:
  "AutoMigrateModel example_new None = Failed NilModel \<and>
   Kind (indirectType (TypeOf IntModel)) \<noteq> Struct \<and>
   AutoMigrateModel example_new (Some IntModel) = Failed (NotAStruct IntKind) \<and>
   resolve (example_new 0) TestNotebookFile (Columns (LocalVariable_Indexes ! 0) ! 0) = Ok ''TenantID'' \<and>
   resolve (example_new 1) TestNotebookFile (Columns (LocalVariable_Indexes ! 0) ! 1) =
     Error (SelNotTopLevel ''TestNotebookFile'') \<and>
   AutoMigrateModel example_new (Some LocalVariable_model) =
     Failed (SelectorError ''idx_local'' 2 (SelNotTopLevel ''TestNotebookFile''))"
proof -
  let ?d = "LocalVariable_Indexes ! 0"
  let ?c0 = "Columns ?d ! 0" and ?c1 = "Columns ?d ! 1"
  have r0: "resolve (example_new 0) TestNotebookFile ?c0 = Ok ''TenantID''"
    by code_simp
  have r1: "resolve (example_new 1) TestNotebookFile ?c1 = Error (SelNotTopLevel ''TestNotebookFile'')"
    by code_simp
  have k: "Kind (indirectType (TypeOf LocalVariable_model)) = Struct"
    by (simp add: LocalVariable_model_def TestNotebookFile_def)
  have i: "Indexes LocalVariable_model =
      Some (Method 0 1 (ValueOf_Indexes TestNotebookFile ([] @ ?d # [])))"
    by (simp add: LocalVariable_model_def LocalVariable_Indexes_def)
  have c: "Columns ?d = [?c0] @ ?c1 # []"
    by (simp add: LocalVariable_Indexes_def)
  have ok: "\<forall>k<length (concat (map Columns []) @ [?c0]). \<exists>f.
      resolve (example_new k) TestNotebookFile ((concat (map Columns []) @ [?c0]) ! k) = Ok f"
    using r0 by simp
  have err: "resolve (example_new (length (concat (map Columns []) @ [?c0]))) TestNotebookFile ?c1 =
      Error (SelNotTopLevel ''TestNotebookFile'')"
    using r1 by simp
  have n: "Name ?d = ''idx_local''"
    by (simp add: LocalVariable_Indexes_def)
  have "AutoMigrateModel example_new (Some LocalVariable_model) =
      Failed (SelectorError (Name ?d) (length [?c0] + 1) (SelNotTopLevel ''TestNotebookFile''))"
    using synthesis_failures [of example_new LocalVariable_model TestNotebookFile "[]" ?d "[]"
        "[?c0]" ?c1 "[]" "SelNotTopLevel ''TestNotebookFile''"] k i c ok err
    by blast
  moreover have "Kind (indirectType (TypeOf IntModel)) \<noteq> Struct"
    by (simp add: IntModel_def)
  moreover from this have "AutoMigrateModel example_new (Some IntModel) = Failed (NotAStruct IntKind)"
    using synthesis_failures [of example_new IntModel] by (simp add: IntModel_def)
  moreover have "AutoMigrateModel example_new None = Failed NilModel"
    using synthesis_failures [of example_new] by blast
  ultimately show ?thesis
    using r0 r1 n by simp
qed

section \<open>Properties of the merge\<close>

lemma strip_keep_filter:
  "strip_keep ps = filter (\<lambda>pp. \<not> indexPiece pp) (map TrimSpace ps)"
  by (induction ps) (simp_all add: Let_def indexPiece_def)

lemma strip_keep_append: "strip_keep (xs @ ys) = strip_keep xs @ strip_keep ys"
  by (simp add: strip_keep_filter)

lemma kept_strip_keep: "kept (strip_keep (Split g (CHR '';'')))"
proof -
  have "TrimSpace p = p \<and> \<not> indexPiece p \<and> CHR '';'' \<notin> set p"
    if "p \<in> set (strip_keep (Split g (CHR '';'')))" for p
  proof -
    from that obtain q where q: "q \<in> set (Split g (CHR '';''))" "p = TrimSpace q" "\<not> indexPiece p"
      by (auto simp: strip_keep_filter)
    from q(1) have "CHR '';'' \<notin> set q" by (rule Split_no_separator)
    with set_TrimSpace [of q] q(2) have "CHR '';'' \<notin> set p" by blast
    with q show ?thesis by (simp add: TrimSpace_idem)
  qed
  then show ?thesis by (simp add: kept_def)
qed

lemma strip_keep_kept: "kept K \<Longrightarrow> strip_keep K = K"
  by (induction K) (simp_all add: kept_def Let_def indexPiece_def)

lemma strip_keep_fragments:
  "\<forall>f\<in>set F. prefix ''index:'' f \<Longrightarrow> strip_keep F = []"
proof (induction F)
  case Nil
  show ?case by simp
next
  case (Cons f F)
  then have "prefix ''index:'' (TrimSpace f)" by (simp add: TrimSpace_keeps_index)
  with Cons show ?case by (simp add: HasPrefix_def)
qed

lemma strip_appended:
  assumes K: "kept K"
      and F: "\<forall>f\<in>set F. prefix ''index:'' f \<and> CHR '';'' \<notin> set f"
  shows "stripIndexPiecesFromGormTag (appended (Join K '';'') F) = Join K '';''"
proof (cases "F = []")
  case True
  show ?thesis
  proof (cases "Join K '';'' = []")
    case True
    with \<open>F = []\<close> show ?thesis by (simp add: appended_def stripIndexPiecesFromGormTag_def)
  next
    case False
    then have "K \<noteq> []" by auto
    moreover have "\<forall>p\<in>set K. CHR '';'' \<notin> set p" using K by (simp add: kept_def)
    ultimately have "Split (Join K '';'') (CHR '';'') = K" by (rule Split_Join)
    with False \<open>F = []\<close> K show ?thesis
      by (simp add: appended_def stripIndexPiecesFromGormTag_def strip_keep_kept)
  qed
next
  case False
  have Fsep: "\<forall>p\<in>set F. CHR '';'' \<notin> set p" using F by blast
  have Fidx: "\<forall>f\<in>set F. prefix ''index:'' f" using F by blast
  have JF: "Join F '';'' \<noteq> []"
  proof
    assume "Join F '';'' = []"
    then have "F = [] \<or> F = [[]]" by (rule Join_eq_Nil) simp
    with False have "F = [[]]" by simp
    with Fidx show False by simp
  qed
  have SF: "Split (Join F '';'') (CHR '';'') = F" using False Fsep by (rule Split_Join)
  show ?thesis
  proof (cases "Join K '';'' = []")
    case True
    with False JF SF show ?thesis
      by (simp add: appended_def stripIndexPiecesFromGormTag_def strip_keep_fragments [OF Fidx])
  next
    case JK: False
    then have "K \<noteq> []" by auto
    have Ksep: "\<forall>p\<in>set K. CHR '';'' \<notin> set p" using K by (simp add: kept_def)
    have "appended (Join K '';'') F = Join (K @ F) '';''"
      using False JK \<open>K \<noteq> []\<close> by (simp add: appended_def Join_append)
    moreover have "Split (Join (K @ F) '';'') (CHR '';'') = K @ F"
      using \<open>K \<noteq> []\<close> Ksep Fsep by (intro Split_Join) auto
    moreover have "Join (K @ F) '';'' \<noteq> []"
      using JK \<open>K \<noteq> []\<close> False by (simp add: Join_append)
    ultimately show ?thesis
      using K by (simp add: stripIndexPiecesFromGormTag_def strip_keep_append strip_keep_kept
          strip_keep_fragments [OF Fidx])
  qed
qed

lemma strip_is_Join_kept:
  "\<exists>K. kept K \<and> stripIndexPiecesFromGormTag g = Join K '';''"
proof (cases "g = []")
  case True
  then have "kept [] \<and> stripIndexPiecesFromGormTag g = Join [] '';''"
    by (simp add: kept_def stripIndexPiecesFromGormTag_def)
  then show ?thesis by blast
next
  case False
  then have "stripIndexPiecesFromGormTag g = Join (strip_keep (Split g (CHR '';''))) '';''"
    by (simp add: stripIndexPiecesFromGormTag_def)
  with kept_strip_keep show ?thesis by blast
qed

lemma set_strip: "set (stripIndexPiecesFromGormTag g) \<subseteq> set g \<union> {CHR '';''}"
proof (cases "g = []")
  case True
  then show ?thesis by (simp add: stripIndexPiecesFromGormTag_def)
next
  case False
  have "set p \<subseteq> set g" if "p \<in> set (strip_keep (Split g (CHR '';'')))" for p
  proof -
    from that obtain q where q: "q \<in> set (Split g (CHR '';''))" "p = TrimSpace q"
      by (auto simp: strip_keep_filter)
    have "set q \<subseteq> set g" using q(1) by (rule Split_subset)
    with q(2) set_TrimSpace [of q] show ?thesis by blast
  qed
  then have "\<Union> (set ` set (strip_keep (Split g (CHR '';'')))) \<subseteq> set g" by blast
  with set_Join [of "strip_keep (Split g (CHR '';''))" "'';''"] False show ?thesis
    by (auto simp: stripIndexPiecesFromGormTag_def)
qed

declare FindAllStringSubmatch.simps [simp del]

lemma buildStructTag_entry: "buildStructTag kv = Join (sort (map entry kv)) '' ''"
proof -
  have "(\<lambda>(k, v). k @ '':'' @ [DQ] @ v @ [DQ]) = entry"
    by (auto simp: entry_def fun_eq_iff)
  then show ?thesis by (cases kv) (simp_all add: buildStructTag_def)
qed

lemma not_isWord [simp]: "\<not> isWord (CHR '':'')" "\<not> isWord (CHR '' '')"
  by (simp_all add: isWord_def isUpper_def isLower_def)

lemma match_here_entry:
  assumes "wellformed e"
  shows "match_here (entry e @ rest) = Some (fst e, snd e, rest)"
proof -
  obtain k v where e: "e = (k, v)" by (cases e)
  with assms have k: "k \<noteq> []" "\<forall>c\<in>set k. isWord c" and v: "DQ \<notin> set v"
    by (simp_all add: wellformed_def)
  have s: "entry e @ rest = k @ CHR '':'' # DQ # v @ DQ # rest"
    by (simp add: entry_def e)
  have t: "takeWhile isWord (k @ CHR '':'' # DQ # v @ DQ # rest) = k"
    using k(2) by (simp add: takeWhile_append2)
  have d: "dropWhile isWord (k @ CHR '':'' # DQ # v @ DQ # rest) = CHR '':'' # DQ # v @ DQ # rest"
    using k(2) by (simp add: dropWhile_append2)
  from v have v': "\<forall>c\<in>set v. c \<noteq> DQ" by auto
  have tv: "takeWhile (\<lambda>c. c \<noteq> DQ) (v @ DQ # rest) = v"
    using v' by (simp add: takeWhile_append2)
  have dv: "dropWhile (\<lambda>c. c \<noteq> DQ) (v @ DQ # rest) = DQ # rest"
    using v' by (simp add: dropWhile_append2)
  show ?thesis
    unfolding match_here_def s using k(1) by (simp add: t d tv dv e)
qed

lemma entry_not_Nil [simp]: "entry e \<noteq> []"
  by (simp add: entry_def)

lemma FindAll_entry_Cons:
  assumes "wellformed e"
  shows "FindAllStringSubmatch (entry e @ rest) = e # FindAllStringSubmatch rest"
proof -
  obtain c cs where c: "entry e @ rest = c # cs"
    by (cases "entry e @ rest") simp_all
  have "FindAllStringSubmatch (c # cs) =
      (case match_here (c # cs) of
         Some (k, v, rest) \<Rightarrow> (k, v) # FindAllStringSubmatch rest
       | None \<Rightarrow> FindAllStringSubmatch cs)"
    by (subst FindAllStringSubmatch.simps) simp
  moreover have "match_here (c # cs) = Some (fst e, snd e, rest)"
    using match_here_entry [OF assms, of rest] by (simp add: c)
  ultimately show ?thesis by (simp add: c)
qed

lemma FindAll_space: "FindAllStringSubmatch (CHR '' '' # s) = FindAllStringSubmatch s"
proof -
  have "match_here (CHR '' '' # s) = None" by (simp add: match_here_def)
  then show ?thesis by (subst FindAllStringSubmatch.simps) simp
qed

lemma FindAll_Nil [simp]: "FindAllStringSubmatch [] = []"
  by (subst FindAllStringSubmatch.simps) simp

lemma FindAll_entries:
  "\<forall>e\<in>set es. wellformed e \<Longrightarrow> FindAllStringSubmatch (Join (map entry es) '' '') = es"
proof (induction es)
  case Nil
  show ?case by simp
next
  case (Cons e es)
  then have w: "wellformed e" by simp
  show ?case
  proof (cases "es = []")
    case True
    with FindAll_entry_Cons [OF w, of "[]"] show ?thesis by simp
  next
    case False
    then have "Join (map entry (e # es)) '' '' = entry e @ CHR '' '' # Join (map entry es) '' ''"
      by (simp add: Join_Cons)
    with Cons show ?thesis
      by (simp add: FindAll_entry_Cons [OF w] FindAll_space)
  qed
qed

lemma match_here_wellformed:
  assumes "match_here s = Some (k, v, rest)"
  shows "wellformed (k, v)"
proof -
  from assms obtain r where
    k: "k = takeWhile isWord s" "k \<noteq> []" and v: "v = takeWhile (\<lambda>c. c \<noteq> DQ) r"
    by (auto simp: match_here_def Let_def split: if_splits list.splits)
  have "\<forall>c\<in>set k. isWord c" using k(1) by (auto dest: set_takeWhileD)
  moreover have "DQ \<notin> set v" using v by (auto dest: set_takeWhileD)
  ultimately show ?thesis using k(2) by (simp add: wellformed_def)
qed

lemma FindAll_wellformed: "\<forall>e\<in>set (FindAllStringSubmatch s). wellformed e"
proof (induction s rule: FindAllStringSubmatch.induct)
  case (1 s)
  show ?case
  proof (cases s)
    case Nil
    then show ?thesis by simp
  next
    case (Cons c cs)
    show ?thesis
    proof (cases "match_here s")
      case None
      have "\<forall>e\<in>set (FindAllStringSubmatch cs). wellformed e"
        using "1.IH"(1) [OF Cons None] .
      with Cons None show ?thesis
        by (subst FindAllStringSubmatch.simps) simp
    next
      case (Some x)
      obtain k v rest where x: "x = (k, v, rest)" by (cases x)
      from Some x have "wellformed (k, v)" by (simp add: match_here_wellformed)
      moreover have "\<forall>e\<in>set (FindAllStringSubmatch rest). wellformed e"
        using "1.IH"(2) [OF Cons Some, of k "(v, rest)" v rest] x by simp
      ultimately show ?thesis
        using Cons Some x by (subst FindAllStringSubmatch.simps) simp
    qed
  qed
qed

lemma update_absent: "k \<notin> fst ` set al \<Longrightarrow> AList.update k v al = al @ [(k, v)]"
  by (induction al) auto

lemma foldl_update_distinct:
  "distinct (map fst (acc @ es)) \<Longrightarrow>
   foldl (\<lambda>out m. AList.update (fst m) (snd m) out) acc es = acc @ es"
proof (induction es arbitrary: acc)
  case Nil
  show ?case by simp
next
  case (Cons e es)
  then have "fst e \<notin> fst ` set acc" by auto
  then have "AList.update (fst e) (snd e) acc = acc @ [e]" by (simp add: update_absent)
  moreover have "distinct (map fst ((acc @ [e]) @ es))" using Cons.prems by simp
  ultimately show ?case using Cons.IH [of "acc @ [e]"] by simp
qed

lemma set_update_subset: "set (AList.update k v al) \<subseteq> insert (k, v) (set al)"
  by (induction al) auto

lemma foldl_update_invariant:
  "distinct (map fst acc) \<Longrightarrow> \<forall>e\<in>set acc. wellformed e \<Longrightarrow> \<forall>e\<in>set ms. wellformed e \<Longrightarrow>
   distinct (map fst (foldl (\<lambda>out m. AList.update (fst m) (snd m) out) acc ms)) \<and>
   (\<forall>e\<in>set (foldl (\<lambda>out m. AList.update (fst m) (snd m) out) acc ms). wellformed e)"
proof (induction ms arbitrary: acc)
  case Nil
  then show ?case by simp
next
  case (Cons m ms)
  have "distinct (map fst (AList.update (fst m) (snd m) acc))"
    using Cons.prems(1) by (rule distinct_update)
  moreover have "\<forall>e\<in>set (AList.update (fst m) (snd m) acc). wellformed e"
    using set_update_subset [of "fst m" "snd m" acc] Cons.prems(2,3) by auto
  ultimately show ?case using Cons.IH Cons.prems(3) by simp
qed

lemma parseStructTag_invariant:
  "distinct (map fst (parseStructTag tag)) \<and> (\<forall>e\<in>set (parseStructTag tag). wellformed e)"
  unfolding parseStructTag_def
  by (rule foldl_update_invariant) (simp_all add: FindAll_wellformed)

lemma map_insort_key: "map f (insort_key f x xs) = insort (f x) (map f xs)"
  by (induction xs) simp_all

lemma map_sort_key: "map f (sort_key f xs) = sort (map f xs)"
  by (induction xs) (simp_all add: map_insort_key)

lemma parse_build:
  assumes "distinct (map fst kv)" and "\<forall>e\<in>set kv. wellformed e"
  shows "parseStructTag (buildStructTag kv) = sort_key entry kv"
proof -
  have m: "mset (sort_key entry kv) = mset kv" by simp
  then have s: "set (sort_key entry kv) = set kv" by (metis set_mset_mset)
  have "mset (map fst (sort_key entry kv)) = mset (map fst kv)"
    using m by (metis mset_map)
  with assms(1) have d: "distinct (map fst (sort_key entry kv))"
    by (metis mset_eq_imp_distinct_iff)
  have "buildStructTag kv = Join (map entry (sort_key entry kv)) '' ''"
    by (simp add: buildStructTag_entry map_sort_key)
  moreover have "FindAllStringSubmatch (Join (map entry (sort_key entry kv)) '' '') = sort_key entry kv"
    using assms(2) s by (intro FindAll_entries) simp
  ultimately show ?thesis
    using foldl_update_distinct [of "[]" "sort_key entry kv"] d
    by (simp add: parseStructTag_def)
qed

lemma buildStructTag_mset: "mset kv' = mset kv \<Longrightarrow> buildStructTag kv' = buildStructTag kv"
proof -
  assume "mset kv' = mset kv"
  then have "mset (map entry kv') = mset (map entry kv)" by (metis mset_map)
  then have "sort (map entry kv') = sort (map entry kv)"
    by (metis properties_for_sort sorted_sort mset_sort)
  then show ?thesis by (simp add: buildStructTag_entry)
qed

lemma merge_eq:
  "mergeIndexIntoGormTag orig toAdd =
     buildStructTag (set_gorm (parseStructTag orig) (merged_gorm orig toAdd))"
  by (simp add: mergeIndexIntoGormTag_def set_gorm_def merged_gorm_def appended_def Let_def)

lemma wellformed_gorm: "DQ \<notin> set g \<Longrightarrow> wellformed (''gorm'', g)"
  by (simp add: wellformed_def isWord_def isLower_def)

lemma set_delete_subset: "set (AList.delete k al) \<subseteq> set al"
  by (induction al) auto

lemma set_gorm_invariant:
  assumes "distinct (map fst kv)" and "\<forall>e\<in>set kv. wellformed e" and "DQ \<notin> set g"
  shows "distinct (map fst (set_gorm kv g)) \<and> (\<forall>e\<in>set (set_gorm kv g). wellformed e)"
proof (cases "g = []")
  case True
  with assms set_delete_subset [of "''gorm''" kv] show ?thesis
    by (auto simp: set_gorm_def distinct_delete)
next
  case False
  with assms set_update_subset [of "''gorm''" g kv] wellformed_gorm [of g] show ?thesis
    by (auto simp: set_gorm_def distinct_update)
qed

lemma map_of_set_gorm:
  "map_of (set_gorm kv g) = (map_of kv)(''gorm'' := (if g = [] then None else Some g))"
  by (simp add: set_gorm_def update_conv' delete_conv')

lemma lookup_set_gorm: "lookup (set_gorm kv g) ''gorm'' = g"
  by (simp add: lookup_def map_of_set_gorm)

lemma map_of_sort_key:
  assumes "distinct (map fst kv)"
  shows "map_of (sort_key f kv) = map_of kv"
proof -
  have m: "mset (sort_key f kv) = mset kv" by simp
  then have "mset (map fst (sort_key f kv)) = mset (map fst kv)" by (metis mset_map)
  with assms have "distinct (map fst (sort_key f kv))" by (metis mset_eq_imp_distinct_iff)
  moreover have "set (sort_key f kv) = set kv" using m by (metis set_mset_mset)
  ultimately show ?thesis using assms by (simp add: map_of_inject_set)
qed

lemma set_gorm_same:
  assumes "map_of es ''gorm'' = (if g = [] then None else Some g)"
  shows "set_gorm es g = es"
proof (cases "g = []")
  case True
  with assms have "''gorm'' \<notin> fst ` set es" by (simp add: map_of_eq_None_iff)
  with True show ?thesis by (simp add: set_gorm_def)
next
  case False
  with assms show ?thesis by (simp add: set_gorm_def update_triv)
qed

lemma lookup_no_quote:
  assumes "\<forall>e\<in>set kv. wellformed e"
  shows "DQ \<notin> set (lookup kv key)"
proof (cases "map_of kv key")
  case None
  then show ?thesis by (simp add: lookup_def)
next
  case (Some v)
  then have "(key, v) \<in> set kv" by (rule map_of_SomeD)
  with assms have "DQ \<notin> set v" by (auto simp: wellformed_def)
  with Some show ?thesis by (simp add: lookup_def)
qed

lemma merged_gorm_no_quote:
  assumes "\<forall>f\<in>set toAdd. DQ \<notin> set f"
  shows "DQ \<notin> set (merged_gorm orig toAdd)"
proof -
  let ?g = "lookup (parseStructTag orig) ''gorm''"
  have "DQ \<notin> set ?g"
    using parseStructTag_invariant [of orig] by (intro lookup_no_quote) blast
  with set_strip [of ?g] have g0: "DQ \<notin> set (stripIndexPiecesFromGormTag ?g)" by auto
  have "DQ \<notin> set (Join toAdd '';'')"
    using set_Join [of toAdd "'';''"] assms by auto
  with g0 show ?thesis by (simp add: merged_gorm_def appended_def)
qed

lemma parse_merge:
  assumes "\<forall>f\<in>set toAdd. DQ \<notin> set f"
  shows "parseStructTag (mergeIndexIntoGormTag orig toAdd) =
           sort_key entry (set_gorm (parseStructTag orig) (merged_gorm orig toAdd))"
proof -
  have "distinct (map fst (set_gorm (parseStructTag orig) (merged_gorm orig toAdd))) \<and>
      (\<forall>e\<in>set (set_gorm (parseStructTag orig) (merged_gorm orig toAdd)). wellformed e)"
    using parseStructTag_invariant [of orig] merged_gorm_no_quote [OF assms]
    by (intro set_gorm_invariant) blast+
  then show ?thesis by (simp add: merge_eq parse_build)
qed

lemma map_of_parse_merge:
  assumes "\<forall>f\<in>set toAdd. DQ \<notin> set f"
  shows "map_of (parseStructTag (mergeIndexIntoGormTag orig toAdd)) =
           (map_of (parseStructTag orig))
             (''gorm'' := (if merged_gorm orig toAdd = [] then None
                           else Some (merged_gorm orig toAdd)))"
proof -
  have "distinct (map fst (set_gorm (parseStructTag orig) (merged_gorm orig toAdd)))"
    using parseStructTag_invariant [of orig] merged_gorm_no_quote [OF assms]
      set_gorm_invariant by blast
  then show ?thesis
    by (simp add: parse_merge [OF assms] map_of_sort_key map_of_set_gorm)
qed

lemma merge_idempotent:
  assumes F: "\<forall>f\<in>set toAdd. prefix ''index:'' f \<and> CHR '';'' \<notin> set f \<and> DQ \<notin> set f"
  shows "mergeIndexIntoGormTag (mergeIndexIntoGormTag orig toAdd) toAdd =
           mergeIndexIntoGormTag orig toAdd"
proof -
  let ?kv = "parseStructTag orig"
  let ?g0 = "stripIndexPiecesFromGormTag (lookup ?kv ''gorm'')"
  let ?g1 = "merged_gorm orig toAdd"
  let ?kv1 = "set_gorm ?kv ?g1"
  let ?es = "sort_key entry ?kv1"
  have q: "\<forall>f\<in>set toAdd. DQ \<notin> set f" using F by blast
  have inv1: "distinct (map fst ?kv1)"
    using parseStructTag_invariant [of orig] merged_gorm_no_quote [OF q]
      set_gorm_invariant by blast
  have p: "parseStructTag (mergeIndexIntoGormTag orig toAdd) = ?es"
    by (rule parse_merge [OF q])
  have m: "map_of ?es = map_of ?kv1" using inv1 by (rule map_of_sort_key)
  have l: "lookup ?es ''gorm'' = ?g1"
    using lookup_set_gorm [of ?kv ?g1] by (simp add: lookup_def m)
  obtain K where K: "kept K" "?g0 = Join K '';''"
    using strip_is_Join_kept by blast
  have st: "stripIndexPiecesFromGormTag ?g1 = ?g0"
    using strip_appended [OF K(1), of toAdd] F K(2) by (simp add: merged_gorm_def)
  have "merged_gorm (mergeIndexIntoGormTag orig toAdd) toAdd =
      appended (stripIndexPiecesFromGormTag (lookup ?es ''gorm'')) toAdd"
    by (simp only: merged_gorm_def p)
  also have "\<dots> = appended (stripIndexPiecesFromGormTag ?g1) toAdd"
    by (simp only: l)
  also have "\<dots> = appended ?g0 toAdd"
    by (simp only: st)
  also have "\<dots> = ?g1"
    by (simp only: merged_gorm_def)
  finally have g: "merged_gorm (mergeIndexIntoGormTag orig toAdd) toAdd = ?g1" .
  have "map_of ?es ''gorm'' = (if ?g1 = [] then None else Some ?g1)"
    by (simp add: m map_of_set_gorm)
  then have s: "set_gorm ?es ?g1 = ?es" by (rule set_gorm_same)
  have "mergeIndexIntoGormTag (mergeIndexIntoGormTag orig toAdd) toAdd = buildStructTag ?es"
    by (simp add: merge_eq [of "mergeIndexIntoGormTag orig toAdd"] g p s)
  also have "\<dots> = buildStructTag ?kv1"
    by (rule buildStructTag_mset) simp
  finally show ?thesis by (simp add: merge_eq)
qed

lemma fragment_prefix: "prefix ''index:'' (fragment d j fname)"
proof -
  have "markers d j fname = (''index:'' @ Name d) # tl (markers d j fname)"
    by (simp add: markers_eq)
  then obtain ms where "markers d j fname = (''index:'' @ Name d) # ms" by blast
  then have "fragment d j fname = ''index:'' @ Name d \<or>
      (\<exists>r. fragment d j fname = (''index:'' @ Name d) @ '','' @ r)"
    by (cases ms) (simp_all add: fragment_def)
  then show ?thesis by (auto simp: prefix_def)
qed

lemma indexPiece_declaration: "indexPiece p \<Longrightarrow> index_declaration p"
proof -
  assume "indexPiece p"
  then consider r where "p = ''index:'' @ r" | r where "p = ''uniqueIndex:'' @ r"
    by (auto simp: indexPiece_def HasPrefix_def prefix_def)
  then show ?thesis
  proof cases
    case 1
    have "map upper ''index:'' = ''INDEX:''" by code_simp
    with 1 have "map upper p = ''INDEX'' @ ('':'' @ map upper r)" by simp
    then show ?thesis unfolding index_declaration_def prefix_def by blast
  next
    case 2
    have "map upper ''uniqueIndex:'' = ''UNIQUEINDEX:''" by code_simp
    with 2 have "map upper p = ''UNIQUEINDEX'' @ ('':'' @ map upper r)" by simp
    then show ?thesis unfolding index_declaration_def prefix_def by blast
  qed
qed

lemma Split_strip:
  "Split (stripIndexPiecesFromGormTag g) (CHR '';'') =
     (if strip_keep (Split g (CHR '';'')) = [] then [[]] else strip_keep (Split g (CHR '';'')))"
proof (cases "g = []")
  case True
  then show ?thesis
    by (simp add: stripIndexPiecesFromGormTag_def Let_def HasPrefix_def)
next
  case False
  let ?K = "strip_keep (Split g (CHR '';''))"
  from False have s: "stripIndexPiecesFromGormTag g = Join ?K '';''"
    by (simp add: stripIndexPiecesFromGormTag_def)
  show ?thesis
  proof (cases "?K = []")
    case True
    with s show ?thesis by simp
  next
    case K: False
    have "\<forall>p\<in>set ?K. CHR '';'' \<notin> set p"
      using kept_strip_keep [of g] by (simp add: kept_def)
    with K have "Split (Join ?K '';'') (CHR '';'') = ?K" by (rule Split_Join)
    with s K show ?thesis by simp
  qed
qed

lemma strip_removes:
  "filter indexPiece (Split (stripIndexPiecesFromGormTag g) (CHR '';'')) = []"
proof -
  have "\<not> indexPiece []" by (simp add: indexPiece_def HasPrefix_def)
  then show ?thesis
    by (simp add: Split_strip strip_keep_filter)
qed

lemma strip_keeps:
  "filter other_piece (Split (stripIndexPiecesFromGormTag g) (CHR '';'')) =
   filter other_piece (map TrimSpace (Split g (CHR '';'')))"
proof -
  let ?K = "strip_keep (Split g (CHR '';''))"
  have e: "(other_piece p \<and> \<not> indexPiece p) = other_piece p" for p
    using indexPiece_declaration [of p] by (auto simp: other_piece_def)
  have k: "filter other_piece ?K = filter other_piece (map TrimSpace (Split g (CHR '';'')))"
    by (simp add: strip_keep_filter e conj_commute)
  show ?thesis
  proof (cases "?K = []")
    case True
    then have "Split (stripIndexPiecesFromGormTag g) (CHR '';'') = [[]]"
      by (simp add: Split_strip)
    then have "filter other_piece (Split (stripIndexPiecesFromGormTag g) (CHR '';'')) = []"
      by (simp add: other_piece_def)
    also have "\<dots> = filter other_piece ?K" using True by simp
    finally show ?thesis using k by simp
  next
    case False
    then have "Split (stripIndexPiecesFromGormTag g) (CHR '';'') = ?K"
      by (simp add: Split_strip)
    with k show ?thesis by simp
  qed
qed

lemma Split_merged:
  assumes "toAdd \<noteq> []"
  shows "Split (merged_gorm orig toAdd) (CHR '';'') =
     (if stripIndexPiecesFromGormTag (lookup (parseStructTag orig) ''gorm'') = [] then []
      else Split (stripIndexPiecesFromGormTag (lookup (parseStructTag orig) ''gorm'')) (CHR '';''))
     @ concat (map (\<lambda>f. Split f (CHR '';'')) toAdd)"
proof -
  have j: "Split (Join toAdd '';'') (CHR '';'') = concat (map (\<lambda>f. Split f (CHR '';'')) toAdd)"
    using assms by (rule Split_Join_concat)
  show ?thesis
    using assms j by (simp add: merged_gorm_def appended_def Split_append_sep)
qed

text \<open>
  C7, amended. The value that the merge leaves of the \<open>gorm\<close> value has, between
  semicolons, no piece that begins with \<open>index:\<close> or \<open>uniqueIndex:\<close>, and its non-empty
  pieces that do not begin with \<open>index\<close> or \<open>uniqueIndex\<close> in any letter case are those
  of the \<open>gorm\<close> value, trimmed and in their order; nothing is said of the other pieces
  that begin so, such as a bare \<open>index\<close>. The pieces of the merged value are those left,
  followed by the pieces of the new fragments. The entries \<open>key:"value"\<close> are written in
  the bytewise order of the written entries, so that the tag does not depend on the order
  in which the map is visited. When no fragment has a quote, the written tag parses back
  to the map of the original tag with the \<open>gorm\<close> key set to the merged value. When every
  fragment begins with \<open>index:\<close>, as every synthesized fragment does, and has neither a
  semicolon nor a quote, merging the same fragments into the tag so produced yields the
  same tag, byte for byte.
\<close>

theorem merge_properties:
  "filter indexPiece (Split (stripIndexPiecesFromGormTag g) (CHR '';'')) = [] \<and>
   filter other_piece (Split (stripIndexPiecesFromGormTag g) (CHR '';'')) =
     filter other_piece (map TrimSpace (Split g (CHR '';''))) \<and>
   merged_gorm orig [] = stripIndexPiecesFromGormTag (lookup (parseStructTag orig) ''gorm'') \<and>
   (toAdd \<noteq> [] \<longrightarrow>
      Split (merged_gorm orig toAdd) (CHR '';'') =
        (if stripIndexPiecesFromGormTag (lookup (parseStructTag orig) ''gorm'') = [] then []
         else Split (stripIndexPiecesFromGormTag (lookup (parseStructTag orig) ''gorm'')) (CHR '';''))
        @ concat (map (\<lambda>f. Split f (CHR '';'')) toAdd)) \<and>
   mergeIndexIntoGormTag orig toAdd =
     buildStructTag (set_gorm (parseStructTag orig) (merged_gorm orig toAdd)) \<and>
   buildStructTag kv = Join (sort (map entry kv)) '' '' \<and>
   (mset kv' = mset kv \<longrightarrow> buildStructTag kv' = buildStructTag kv) \<and>
   ((\<forall>f\<in>set toAdd. DQ \<notin> set f) \<longrightarrow>
      map_of (parseStructTag (mergeIndexIntoGormTag orig toAdd)) =
        (map_of (parseStructTag orig))
          (''gorm'' := (if merged_gorm orig toAdd = [] then None
                        else Some (merged_gorm orig toAdd)))) \<and>
   ((\<forall>f\<in>set toAdd. prefix ''index:'' f \<and> CHR '';'' \<notin> set f \<and> DQ \<notin> set f) \<longrightarrow>
      mergeIndexIntoGormTag (mergeIndexIntoGormTag orig toAdd) toAdd =
        mergeIndexIntoGormTag orig toAdd) \<and>
   prefix ''index:'' (fragment d j fname)"
proof (intro conjI impI)
  show "filter indexPiece (Split (stripIndexPiecesFromGormTag g) (CHR '';'')) = []"
    by (rule strip_removes)
  show "filter other_piece (Split (stripIndexPiecesFromGormTag g) (CHR '';'')) =
     filter other_piece (map TrimSpace (Split g (CHR '';'')))"
    by (rule strip_keeps)
  show "merged_gorm orig [] = stripIndexPiecesFromGormTag (lookup (parseStructTag orig) ''gorm'')"
    by (simp add: merged_gorm_def appended_def)
  show "Split (merged_gorm orig toAdd) (CHR '';'') =
        (if stripIndexPiecesFromGormTag (lookup (parseStructTag orig) ''gorm'') = [] then []
         else Split (stripIndexPiecesFromGormTag (lookup (parseStructTag orig) ''gorm'')) (CHR '';''))
        @ concat (map (\<lambda>f. Split f (CHR '';'')) toAdd)"
    if "toAdd \<noteq> []"
    using that by (rule Split_merged)
  show "mergeIndexIntoGormTag orig toAdd =
     buildStructTag (set_gorm (parseStructTag orig) (merged_gorm orig toAdd))"
    by (rule merge_eq)
  show "buildStructTag kv = Join (sort (map entry kv)) '' ''"
    by (rule buildStructTag_entry)
  show "buildStructTag kv' = buildStructTag kv" if "mset kv' = mset kv"
    using that by (rule buildStructTag_mset)
  show "map_of (parseStructTag (mergeIndexIntoGormTag orig toAdd)) =
        (map_of (parseStructTag orig))
          (''gorm'' := (if merged_gorm orig toAdd = [] then None
                        else Some (merged_gorm orig toAdd)))"
    if "\<forall>f\<in>set toAdd. DQ \<notin> set f"
    using that by (rule map_of_parse_merge)
  show "mergeIndexIntoGormTag (mergeIndexIntoGormTag orig toAdd) toAdd =
        mergeIndexIntoGormTag orig toAdd"
    if "\<forall>f\<in>set toAdd. prefix ''index:'' f \<and> CHR '';'' \<notin> set f \<and> DQ \<notin> set f"
    using that by (rule merge_idempotent)
  show "prefix ''index:'' (fragment d j fname)"
    by (rule fragment_prefix)
qed

theorem merge_properties_witness:
  "mset [(''json'', ''x''), (''gorm'', ''y'')] = mset [(''gorm'', ''y''), (''json'', ''x'')] \<and>
   buildStructTag [(''json'', ''x''), (''gorm'', ''y'')] =
     buildStructTag [(''gorm'', ''y''), (''json'', ''x'')] \<and>
   prefix ''index:'' (fragment (TestNotebookFile_Indexes ! 0) 2 ''FileName'') \<and>
   CHR '';'' \<notin> set (fragment (TestNotebookFile_Indexes ! 0) 2 ''FileName'') \<and>
   DQ \<notin> set (fragment (TestNotebookFile_Indexes ! 0) 2 ''FileName'') \<and>
   lookup (parseStructTag legacy_tag) ''gorm'' = ''index:old_idx;type:text; not null'' \<and>
   stripIndexPiecesFromGormTag ''index:old_idx;type:text; not null'' = ''type:text;not null'' \<and>
   Split (merged_gorm legacy_tag [fragment (TestNotebookFile_Indexes ! 0) 2 ''FileName'']) (CHR '';'') =
     [''type:text'', ''not null'',
      ''index:idx_notebook_files_tenant_scan_filename_trgm,priority:3,expression:file_name gin_trgm_ops''] \<and>
   mergeIndexIntoGormTag legacy_tag [fragment (TestNotebookFile_Indexes ! 0) 2 ''FileName''] =
     ''gorm:'' @ [DQ]
       @ ''type:text;not null;index:idx_notebook_files_tenant_scan_filename_trgm,priority:3,expression:file_name gin_trgm_ops''
       @ [DQ] @ '' json:'' @ [DQ] @ ''file_name'' @ [DQ] \<and>
   mergeIndexIntoGormTag
     (mergeIndexIntoGormTag legacy_tag [fragment (TestNotebookFile_Indexes ! 0) 2 ''FileName''])
     [fragment (TestNotebookFile_Indexes ! 0) 2 ''FileName''] =
     mergeIndexIntoGormTag legacy_tag [fragment (TestNotebookFile_Indexes ! 0) 2 ''FileName'']"
proof -
  let ?f = "fragment (TestNotebookFile_Indexes ! 0) 2 ''FileName''"
  have f: "?f = ''index:idx_notebook_files_tenant_scan_filename_trgm,priority:3,expression:file_name gin_trgm_ops''"
    by code_simp
  have h: "\<forall>f\<in>set [?f]. prefix ''index:'' f \<and> CHR '';'' \<notin> set f \<and> DQ \<notin> set f"
    by (simp add: f)
  have m: "mset [(''json'', ''x''), (''gorm'', ''y'')] = mset [(''gorm'', ''y''), (''json'', ''x'')]"
    by simp
  have l: "lookup (parseStructTag legacy_tag) ''gorm'' = ''index:old_idx;type:text; not null''"
    by code_simp
  have s: "stripIndexPiecesFromGormTag ''index:old_idx;type:text; not null'' = ''type:text;not null''"
    by code_simp
  have s': "Split ''type:text;not null'' (CHR '';'') = [''type:text'', ''not null'']"
    by code_simp
  have s'': "Split ''index:idx_notebook_files_tenant_scan_filename_trgm,priority:3,expression:file_name gin_trgm_ops''
        (CHR '';'') =
      [''index:idx_notebook_files_tenant_scan_filename_trgm,priority:3,expression:file_name gin_trgm_ops'']"
    by code_simp
  have e: "mergeIndexIntoGormTag legacy_tag [?f] =
     ''gorm:'' @ [DQ]
       @ ''type:text;not null;index:idx_notebook_files_tenant_scan_filename_trgm,priority:3,expression:file_name gin_trgm_ops''
       @ [DQ] @ '' json:'' @ [DQ] @ ''file_name'' @ [DQ]"
    by code_simp
  from merge_properties [where orig = legacy_tag and toAdd = "[?f]"
      and kv = "[(''gorm'', ''y''), (''json'', ''x'')]"
      and kv' = "[(''json'', ''x''), (''gorm'', ''y'')]"] h m
  have "buildStructTag [(''json'', ''x''), (''gorm'', ''y'')] =
          buildStructTag [(''gorm'', ''y''), (''json'', ''x'')]"
    and "mergeIndexIntoGormTag (mergeIndexIntoGormTag legacy_tag [?f]) [?f] =
          mergeIndexIntoGormTag legacy_tag [?f]"
    and "Split (merged_gorm legacy_tag [?f]) (CHR '';'') =
        (if stripIndexPiecesFromGormTag (lookup (parseStructTag legacy_tag) ''gorm'') = [] then []
         else Split (stripIndexPiecesFromGormTag (lookup (parseStructTag legacy_tag) ''gorm'')) (CHR '';''))
        @ concat (map (\<lambda>f. Split f (CHR '';'')) [?f])"
    by blast+
  with h m e l s show ?thesis by (simp add: s' s'' f)
qed

text \<open>
  As C7 is worded it fails. The entries are ordered as written, not by key: the key \<open>a0\<close>
  comes before the key \<open>a\<close>, the digit being smaller than the colon. A fragment with a
  semicolon, here from \<open>Where = "a;b"\<close>, is not removed whole by a second merge, which
  leaves the piece \<open>b\<close> in front. And the pieces \<open>index\<close>, \<open>uniqueIndex\<close> and
  \<open>INDEX:idx_a\<close>, whose key is an index declaration, are not removed, although the
  comment above \<open>stripIndexPiecesFromGormTag\<close> says that any existing index or
  uniqueIndex fragment is.
\<close>

theorem merge_properties_counterexample:
  "mergeIndexIntoGormTag prefix_keys_tag [] =
     ''a0:'' @ [DQ] @ ''y'' @ [DQ] @ '' a:'' @ [DQ] @ ''x'' @ [DQ] \<and>
   ''a'' < ''a0'' \<and>
   fragment Semicolon_Index 0 ''Name'' = ''index:i,priority:1,where:a;b'' \<and>
   mergeIndexIntoGormTag [] [fragment Semicolon_Index 0 ''Name''] =
     ''gorm:'' @ [DQ] @ ''index:i,priority:1,where:a;b'' @ [DQ] \<and>
   mergeIndexIntoGormTag (mergeIndexIntoGormTag [] [fragment Semicolon_Index 0 ''Name''])
     [fragment Semicolon_Index 0 ''Name''] =
     ''gorm:'' @ [DQ] @ ''b;index:i,priority:1,where:a;b'' @ [DQ] \<and>
   stripIndexPiecesFromGormTag ''index;uniqueIndex;INDEX:idx_a;not null'' =
     ''index;uniqueIndex;INDEX:idx_a;not null''"
  by code_simp

section \<open>Properties of the selector resolver\<close>

lemma matchField_find:
  "matchField new a fs = map_option sfName (field_at new a fs)"
  by (induction fs) (simp_all add: field_at_def)

lemma resolver_result:
  assumes "sel = VFunc tn [PtrTo (StructType name fs)] 1 (Some f)"
      and "f new = [res]"
      and "res = VIface it (Some (VPtr pt a pointee)) \<or> res = VPtr pt a pointee"
      and "a \<noteq> 0"
  shows "fieldNameFromSelectorValue new sel =
           (1, case field_at new a fs of
                 Some sf \<Rightarrow> Ok (sfName sf)
               | None \<Rightarrow> Error (SelNotTopLevel name))"
proof -
  have m: "matchField new a fs = map_option sfName (field_at new a fs)"
    by (rule matchField_find)
  from assms(3) show ?thesis
  proof
    assume "res = VIface it (Some (VPtr pt a pointee))"
    with assms(1,2,4) show ?thesis
      by (cases "field_at new a fs") (simp_all add: fieldNameFromSelectorValue_def m)
  next
    assume "res = VPtr pt a pointee"
    with assms(1,2,4) show ?thesis
      by (cases "field_at new a fs") (simp_all add: fieldNameFromSelectorValue_def m)
  qed
qed

text \<open>
  C1, amended. Let the selector be a function of one pointer parameter \<open>*M\<close>, \<open>M\<close> a
  struct, with one result, and let it return, for the probe at \<open>new\<close>, a non-nil pointer
  with address \<open>a\<close>, wrapped in an interface or not. Then it is invoked exactly once, and
  the resolver returns the name of the first exported top-level field of the probe that
  lies at \<open>a\<close>: for a field at \<open>a\<close> that is the only exported field at its offset
  (up to the name), exactly that field's name. When no exported top-level field lies at
  \<open>a\<close> (the address of a local or unrelated variable, or of a nested field that does not
  lie at the address of an exported top-level field), the resolver fails with
  \<open>Sel didn't point to a top-level exported field\<close>.
\<close>

theorem selector_resolution:
  assumes "sel = VFunc tn [PtrTo (StructType name fs)] 1 (Some f)"
      and "f new = [res]"
      and "res = VIface it (Some (VPtr pt a pointee)) \<or> res = VPtr pt a pointee"
      and "a \<noteq> 0"
  shows "fieldNameFromSelectorValue new sel =
           (1, case field_at new a fs of
                 Some sf \<Rightarrow> Ok (sfName sf)
               | None \<Rightarrow> Error (SelNotTopLevel name)) \<and>
         (\<forall>sf\<in>set fs. sfPkgPath sf = [] \<and> new + sfOffset sf = a \<and>
             (\<forall>sf'\<in>set fs. sfPkgPath sf' = [] \<and> sfOffset sf' = sfOffset sf \<longrightarrow>
                 sfName sf' = sfName sf) \<longrightarrow>
             fieldNameFromSelectorValue new sel = (1, Ok (sfName sf))) \<and>
         ((\<forall>sf\<in>set fs. sfPkgPath sf = [] \<longrightarrow> new + sfOffset sf \<noteq> a) \<longrightarrow>
             fieldNameFromSelectorValue new sel = (1, Error (SelNotTopLevel name)))"
proof -
  note r = resolver_result [OF assms]
  have unique: "fieldNameFromSelectorValue new sel = (1, Ok (sfName sf))"
    if sf: "sf \<in> set fs"
      and e: "sfPkgPath sf = []" and a: "new + sfOffset sf = a"
      and u: "\<forall>sf'\<in>set fs. sfPkgPath sf' = [] \<and> sfOffset sf' = sfOffset sf \<longrightarrow>
                 sfName sf' = sfName sf"
    for sf
  proof (cases "field_at new a fs")
    case None
    then have "\<not> (\<exists>x. x \<in> set fs \<and> (sfPkgPath x = [] \<and> new + sfOffset x = a))"
      unfolding field_at_def find_None_iff .
    with sf e a show ?thesis by blast
  next
    case (Some g)
    then obtain i where "i < length fs" "sfPkgPath (fs ! i) = [] \<and> new + sfOffset (fs ! i) = a"
      "g = fs ! i"
      unfolding field_at_def find_Some_iff by blast
    then have "g \<in> set fs" "sfPkgPath g = []" "new + sfOffset g = a"
      by simp_all
    with a have "sfOffset g = sfOffset sf" by simp
    with u \<open>g \<in> set fs\<close> \<open>sfPkgPath g = []\<close> have "sfName g = sfName sf" by blast
    with Some r show ?thesis by simp
  qed
  have none: "fieldNameFromSelectorValue new sel = (1, Error (SelNotTopLevel name))"
    if n: "\<forall>sf\<in>set fs. sfPkgPath sf = [] \<longrightarrow> new + sfOffset sf \<noteq> a"
  proof -
    from n have "\<not> (\<exists>x. x \<in> set fs \<and> (sfPkgPath x = [] \<and> new + sfOffset x = a))"
      by blast
    then have "field_at new a fs = None"
      unfolding field_at_def find_None_iff .
    with r show ?thesis by simp
  qed
  from r unique none show ?thesis by blast
qed

theorem selector_resolution_witness:
  "fieldNameFromSelectorValue (example_new 0)
     (ValueOf_Sel TestNotebookFile (field_selector ''*string'' 32 (VString []))) =
     (1, Ok ''FileName'') \<and>
   fieldNameFromSelectorValue (example_new 0)
     (ValueOf_Sel TestNotebookFile (Some (\<lambda>new. Some (VPtr ''*string'' 64 (VString []))))) =
     (1, Error (SelNotTopLevel ''TestNotebookFile''))"
proof -
  let ?fs = "Fields TestNotebookFile"
  let ?tn = "''func(*'' @ TypeName TestNotebookFile @ '') interface {}''"
  let ?f1 = "\<lambda>new. [VIface ''interface {}'' (Some (VPtr ''*string'' (new + 32) (VString [])))]"
  let ?f2 = "\<lambda>new::addr. [VIface ''interface {}'' (Some (VPtr ''*string'' 64 (VString [])))]"
  have T: "TestNotebookFile = StructType ''TestNotebookFile'' ?fs"
    by (simp add: TestNotebookFile_def)
  have s1: "ValueOf_Sel TestNotebookFile (field_selector ''*string'' 32 (VString [])) =
      VFunc ?tn [PtrTo (StructType ''TestNotebookFile'' ?fs)] 1 (Some ?f1)"
    unfolding ValueOf_Sel_def field_selector_def T [symmetric] by simp
  have s2: "ValueOf_Sel TestNotebookFile (Some (\<lambda>new. Some (VPtr ''*string'' 64 (VString [])))) =
      VFunc ?tn [PtrTo (StructType ''TestNotebookFile'' ?fs)] 1 (Some ?f2)"
    unfolding ValueOf_Sel_def T [symmetric] by simp
  have c1: "?f1 (example_new 0) =
      [VIface ''interface {}'' (Some (VPtr ''*string'' (example_new 0 + 32) (VString [])))]"
    by simp
  have c2: "?f2 (example_new 0) =
      [VIface ''interface {}'' (Some (VPtr ''*string'' 64 (VString [])))]"
    by simp
  have n1: "example_new 0 + 32 \<noteq> 0" and n2: "(64::nat) \<noteq> 0"
    by (simp_all add: example_new_def)
  have f1: "field_at (example_new 0) (example_new 0 + 32) ?fs =
      Some (StructField ''FileName'' [] (Basic String ''string'') [] 32 False)"
    by (simp add: field_at_def TestNotebookFile_def example_new_def)
  have f2: "field_at (example_new 0) 64 ?fs = None"
    by (simp add: field_at_def TestNotebookFile_def example_new_def)
  have "fieldNameFromSelectorValue (example_new 0)
      (ValueOf_Sel TestNotebookFile (field_selector ''*string'' 32 (VString []))) =
      (1, case field_at (example_new 0) (example_new 0 + 32) ?fs of
            Some sf \<Rightarrow> Ok (sfName sf) | None \<Rightarrow> Error (SelNotTopLevel ''TestNotebookFile''))"
    by (rule selector_resolution [OF s1 c1 disjI1 [OF refl] n1, THEN conjunct1])
  then have r1: "fieldNameFromSelectorValue (example_new 0)
      (ValueOf_Sel TestNotebookFile (field_selector ''*string'' 32 (VString []))) =
      (1, Ok ''FileName'')"
    by (simp only: f1 option.case StructField.sel)
  have "fieldNameFromSelectorValue (example_new 0)
      (ValueOf_Sel TestNotebookFile (Some (\<lambda>new. Some (VPtr ''*string'' 64 (VString []))))) =
      (1, case field_at (example_new 0) 64 ?fs of
            Some sf \<Rightarrow> Ok (sfName sf) | None \<Rightarrow> Error (SelNotTopLevel ''TestNotebookFile''))"
    by (rule selector_resolution [OF s2 c2 disjI1 [OF refl] n2, THEN conjunct1])
  then have r2: "fieldNameFromSelectorValue (example_new 0)
      (ValueOf_Sel TestNotebookFile (Some (\<lambda>new. Some (VPtr ''*string'' 64 (VString []))))) =
      (1, Error (SelNotTopLevel ''TestNotebookFile''))"
    by (simp only: f2 option.case)
  from r1 r2 show ?thesis by (rule conjI)
qed

text \<open>
  As C1 is worded it fails. In \<open>struct { A struct{}; C int }\<close> the selector
  \<open>&m.C\<close> returns the address of the exported top-level field \<open>C\<close>, which is also the
  address of \<open>A\<close>, and the resolver returns \<open>A\<close>. In \<open>struct { Base; Title string }\<close>
  the selector \<open>&m.ID\<close> returns the address of the nested field \<open>Base.ID\<close>, which is also
  the address of \<open>Base\<close>, and the resolver returns \<open>Base\<close> instead of failing.
\<close>

theorem selector_resolution_counterexample:
  "sfName (Fields ZeroSizeFirst ! 1) = ''C'' \<and> sfPkgPath (Fields ZeroSizeFirst ! 1) = [] \<and>
   fieldNameFromSelectorValue (example_new 0)
     (ValueOf_Sel ZeroSizeFirst
        (field_selector ''*int'' (sfOffset (Fields ZeroSizeFirst ! 1)) (VOther IntKind ''int''))) =
     (1, Ok ''A'') \<and>
   sfName (Fields (sfType (Fields Doc ! 0)) ! 0) = ''ID'' \<and>
   fieldNameFromSelectorValue (example_new 0)
     (ValueOf_Sel Doc
        (field_selector ''*uint''
           (sfOffset (Fields Doc ! 0) + sfOffset (Fields (sfType (Fields Doc ! 0)) ! 0))
           (VOther Uint ''uint''))) =
     (1, Ok ''Base'')"
  by code_simp

end
